theory Spec2Isabelle
  imports Complex_Main
begin

section \<open>Product-quantization codebook training (clustering.cpp)\<close>

text \<open>
  The development embeds \<^verbatim>\<open>src/clustering.cpp\<close>: the training-set subsampler, the
  three centroid initializers, the nearest-centroid assigner, the centroid
  recomputation, the empty-cluster repair and the orchestrator \<^verbatim>\<open>pq_train\<close>.

  Conventions of the embedding.
  \<^item> A buffer (\<^verbatim>\<open>coord_t*\<close>, \<^verbatim>\<open>idx_t*\<close>) is a flat list, row-major as in the source;
    element \<open>j\<close> of row \<open>i\<close> of a buffer of dimension \<open>d\<close> is at index \<open>i * d + j\<close>.
  \<^item> A \<^verbatim>\<open>coord_t\<close>, \<^verbatim>\<open>dist_t\<close> (\<^verbatim>\<open>float\<close>) or \<^verbatim>\<open>double\<close> value is the real number it
    denotes. The arithmetic of the centroid recomputation (the histogram
    increment, the coordinate sums, the reciprocal and the product of
    \<^verbatim>\<open>compute_centroids\<close>) is rounded to single precision by \<open>fl32\<close>; the rounding of
    the other operations is not part of the model, and neither is an overflow to
    infinity. The infinite sentinel \<^verbatim>\<open>HUGE_VAL\<close> / \<^verbatim>\<open>HUGE_VALF\<close> is the value \<open>None\<close>
    of \<open>real option\<close>, and the places where the source divides by zero are written
    out with the IEEE outcome of the comparison that consumes the quotient.
  \<^item> \<^verbatim>\<open>size_t\<close> values are natural numbers; the one subtraction that can wrap
    (\<^verbatim>\<open>n - k\<close> in the repair routine) is written out for a 64-bit \<^verbatim>\<open>size_t\<close>.
    The centroid count is \<open>2 ^ pqBits\<close> (\<^verbatim>\<open>1 << meta->pqBits\<close>).
  \<^item> A read or write outside a buffer (undefined behaviour in the source) is the
    error \<open>OutOfBounds\<close>; a failing \<^verbatim>\<open>assert\<close> is \<open>AssertionFailed\<close>.
  \<^item> The donor search of the repair routine has no bound on its retries; it is a
    \<^theory_text>\<open>partial_function\<close> in the option monad, \<open>None\<close> meaning that the search
    never ends.
  \<^item> The collaborators that are declared in \<^verbatim>\<open>transform.h\<close> and \<^verbatim>\<open>embedding.h\<close>
    (\<^verbatim>\<open>rand_perm\<close>, \<^verbatim>\<open>RandomGenerator\<close>, \<^verbatim>\<open>hnsw_dist_func\<close>, \<^verbatim>\<open>PCAMatrix\<close>) and
    the library's \<^verbatim>\<open>sqrt\<close> are parameters, collected in the record \<open>collaborators\<close>.
\<close>

subsection \<open>Constants and types\<close>

type_synonym coord_t = real
type_synonym dist_t = real
type_synonym idx_t = nat

definition min_points_per_centroid :: nat where
  "min_points_per_centroid = 39"

definition max_points_per_centroid :: nat where
  "max_points_per_centroid = 256"

definition seed :: int where
  "seed = 1234"

definition max_iterations :: nat where
  "max_iterations = 25"

definition min_improvement :: real where
  "min_improvement = 1 / 10000"

definition EPS :: real where
  "EPS = 1 / 1024"

datatype TrainType = TT_DEFAULT | TT_HYPERCUBE | TT_HYPERCUBE_PCA

datatype error = OutOfBounds | AssertionFailed

record HnswMetadata =
  pqSubdim :: nat
  pqBits :: nat
  dist_func :: nat

text \<open>
  \<open>rand_perm E n s\<close> is the content of the index buffer after \<^verbatim>\<open>rand_perm(perm, n, s)\<close>;
  \<open>rand_float E s t\<close> is the value of the \<open>t\<close>-th call of \<^verbatim>\<open>rand_float()\<close> on a
  \<^verbatim>\<open>RandomGenerator\<close> constructed with seed \<open>s\<close>;
  \<open>hnsw_dist_func E f a b d\<close> is \<^verbatim>\<open>hnsw_dist_func(f, a, b, d)\<close> on two rows of \<open>d\<close> coordinates;
  \<open>pca_train E d nbits n x\<close> is the triple (\<^verbatim>\<open>mean\<close>, \<^verbatim>\<open>eigenvalues\<close>, \<^verbatim>\<open>PCAMat\<close>) of a
  \<^verbatim>\<open>PCAMatrix(d, nbits)\<close> after \<^verbatim>\<open>train(n, x)\<close>;
  \<open>c_sqrt E\<close> is the \<^verbatim>\<open>sqrt\<close> of \<^verbatim>\<open><cmath>\<close>.
\<close>

record collaborators =
  rand_perm :: "nat \<Rightarrow> int \<Rightarrow> nat list"
  rand_float :: "int \<Rightarrow> nat \<Rightarrow> real"
  hnsw_dist_func :: "nat \<Rightarrow> coord_t list \<Rightarrow> coord_t list \<Rightarrow> nat \<Rightarrow> dist_t"
  pca_train :: "nat \<Rightarrow> nat \<Rightarrow> nat \<Rightarrow> coord_t list \<Rightarrow> real list \<times> real list \<times> real list"
  c_sqrt :: "real \<Rightarrow> real"

datatype log_line = Subsample nat | Iteration nat "real option"

record train_result =
  ok :: bool
  table :: "coord_t list"
  stderr_log :: "log_line list"

subsection \<open>Loops and buffer primitives\<close>

text \<open>A counted \<^verbatim>\<open>for\<close> loop whose body may hit an error; the first error ends the run.\<close>

fun for_each :: "nat list \<Rightarrow> (nat \<Rightarrow> 's \<Rightarrow> error + 's) \<Rightarrow> 's \<Rightarrow> error + 's" where
  "for_each [] body s = Inr s"
| "for_each (i # is) body s =
     (case body i s of Inl e \<Rightarrow> Inl e | Inr s' \<Rightarrow> for_each is body s')"

text \<open>\<^verbatim>\<open>perm[i]\<close> on a \<^verbatim>\<open>std::vector<int> perm(nx)\<close> filled by \<^verbatim>\<open>rand_perm\<close>.\<close>

definition perm_at :: "nat list \<Rightarrow> nat \<Rightarrow> nat \<Rightarrow> error + nat" where
  "perm_at perm nx i = (if i < nx \<and> i < length perm then Inr (perm ! i) else Inl OutOfBounds)"

text \<open>\<^verbatim>\<open>memcpy(dst + doff, src + soff, len * sizeof(coord_t))\<close>.\<close>

definition memcpy :: "coord_t list \<Rightarrow> nat \<Rightarrow> coord_t list \<Rightarrow> nat \<Rightarrow> nat \<Rightarrow> error + coord_t list" where
  "memcpy dst doff src soff len =
     (if doff + len \<le> length dst \<and> soff + len \<le> length src
      then Inr (take doff dst @ take len (drop soff src) @ drop (doff + len) dst)
      else Inl OutOfBounds)"

text \<open>\<^verbatim>\<open>memset(buf, 0, len * sizeof(coord_t))\<close>.\<close>

definition memset_zero :: "nat \<Rightarrow> coord_t list \<Rightarrow> error + coord_t list" where
  "memset_zero len buf =
     (if len \<le> length buf then Inr (replicate len 0 @ drop len buf) else Inl OutOfBounds)"

text \<open>The \<open>d\<close> coordinates that a row pointer \<^verbatim>\<open>buf + i * d\<close> designates.\<close>

definition row :: "nat \<Rightarrow> nat \<Rightarrow> coord_t list \<Rightarrow> coord_t list" where
  "row d i buf = take d (drop (i * d) buf)"

subsection \<open>Training-set subsampler\<close>

text \<open>
  \<^verbatim>\<open>subsample_training_set\<close>, lines 34-51. The fresh buffer \<^verbatim>\<open>new coord_t[nx * d]\<close> is
  not initialised by the source; the model starts it from zeros and the loop
  overwrites every row. The result is the new row count and the new buffer.
\<close>

definition subsample_training_set ::
    "collaborators \<Rightarrow> nat \<Rightarrow> nat \<Rightarrow> nat \<Rightarrow> coord_t list \<Rightarrow> error + (nat \<times> coord_t list)" where
  "subsample_training_set E d k nx x =
     (let perm = rand_perm E nx seed;
          nx' = k * max_points_per_centroid;
          x_new = replicate (nx' * d) 0
      in case for_each [0..<nx']
                (\<lambda>i x_new. case perm_at perm nx i of
                               Inl e \<Rightarrow> Inl e
                             | Inr p \<Rightarrow> memcpy x_new (i * d) x (p * d) d) x_new of
           Inl e \<Rightarrow> Inl e
         | Inr x_new \<Rightarrow> Inr (nx', x_new))"

subsection \<open>Single-precision rounding\<close>

text \<open>
  \<^verbatim>\<open>coord_t\<close> is \<^verbatim>\<open>float\<close> (line 222 takes a row of the table as \<^verbatim>\<open>float*\<close>): a number
  \<open>m * 2 ^ e\<close> with an integer \<open>m\<close> of at most 24 bits and \<open>e \<ge> -149\<close>. The result of an
  arithmetic operation on \<^verbatim>\<open>float\<close> operands is the exact result rounded to the
  nearest such number, a tie going to the even \<open>m\<close>.

  \<open>normalize_up q u\<close> halves \<open>q\<close> (doubling the unit \<open>u\<close>) until it is below \<open>2 ^ 24\<close>;
  \<open>normalize_down q e\<close> doubles \<open>q\<close> until it is at least \<open>2 ^ 23\<close>, at most \<open>e\<close> times (the
  subnormal range keeps the least unit \<open>2 ^ -149\<close>). There is no largest exponent:
  the overflow of a result to infinity is not modelled.
\<close>

function normalize_up :: "real \<Rightarrow> real \<Rightarrow> real \<times> real" where
  "normalize_up q u = (if q < 16777216 then (q, u) else normalize_up (q / 2) (u * 2))"
  by pat_completeness auto

termination
proof (relation "measure (\<lambda>(q, u). nat \<lceil>q\<rceil>)")
  show "wf (measure (\<lambda>(q, u). nat \<lceil>q\<rceil>))" by simp
next
  fix q u :: real
  assume "\<not> q < 16777216"
  then have q: "16777216 \<le> q" by simp
  have "\<lceil>q / 2\<rceil> < \<lceil>q\<rceil>"
  proof -
    have "real_of_int \<lceil>q / 2\<rceil> < q / 2 + 1" by linarith
    also have "\<dots> \<le> q" using q by simp
    also have "\<dots> \<le> real_of_int \<lceil>q\<rceil>" by linarith
    finally show ?thesis by simp
  qed
  moreover have "0 < \<lceil>q\<rceil>" using q by linarith
  ultimately show "((q / 2, u * 2), (q, u)) \<in> measure (\<lambda>(q, u). nat \<lceil>q\<rceil>)"
    by simp
qed

fun normalize_down :: "real \<Rightarrow> nat \<Rightarrow> real \<times> nat" where
  "normalize_down q e =
     (if 8388608 \<le> q \<or> e = 0 then (q, e) else normalize_down (q * 2) (e - 1))"

declare normalize_up.simps [simp del]
declare normalize_down.simps [simp del]

text \<open>The nearest integer, a tie going to the even one.\<close>

definition round_even :: "real \<Rightarrow> int" where
  "round_even q =
     (let f = \<lfloor>q\<rfloor>; r = q - of_int f
      in if r < 1 / 2 then f else if 1 / 2 < r then f + 1 else if even f then f else f + 1)"

text \<open>The \<^verbatim>\<open>float\<close> nearest to a real number.\<close>

definition fl32 :: "real \<Rightarrow> coord_t" where
  "fl32 x =
     (case normalize_up \<bar>x\<bar> 1 of (q1, u) \<Rightarrow>
        case normalize_down q1 149 of (q2, e) \<Rightarrow>
          let m = of_int (round_even q2) * u * 2 ^ e / 2 ^ 149
          in if x < 0 then - m else m)"

subsection \<open>Centroid recomputation\<close>

text \<open>The inner loop \<^verbatim>\<open>c[j] += xi[j]\<close> with \<^verbatim>\<open>c = centroids + ci * d\<close>, \<^verbatim>\<open>xi = &x[i * d]\<close>.\<close>

definition accumulate_row :: "nat \<Rightarrow> nat \<Rightarrow> nat \<Rightarrow> coord_t list \<Rightarrow> coord_t list \<Rightarrow> coord_t list" where
  "accumulate_row d ci i x centroids =
     fold (\<lambda>j c. c[ci * d + j := fl32 (c ! (ci * d + j) + x ! (i * d + j))]) [0..<d] centroids"

text \<open>The inner loop \<^verbatim>\<open>c[j] *= norm\<close> (\<open>nrm\<close> is the source's \<^verbatim>\<open>norm\<close>).\<close>

definition scale_row :: "nat \<Rightarrow> nat \<Rightarrow> coord_t \<Rightarrow> coord_t list \<Rightarrow> coord_t list" where
  "scale_row d ci nrm centroids =
     fold (\<lambda>j c. c[ci * d + j := fl32 (c ! (ci * d + j) * nrm)]) [0..<d] centroids"

text \<open>
  \<^verbatim>\<open>compute_centroids\<close>, lines 62-113, the build without \<^verbatim>\<open>USE_OMP\<close>. The histogram
  is not reset here: the source documents that it "should be 0 on input", and
  \<^verbatim>\<open>pq_train\<close> passes a fresh zeroed vector. The histogram is a \<^verbatim>\<open>coord_t\<close> buffer as
  well: \<^verbatim>\<open>hassign[ci] += 1.0\<close> and \<^verbatim>\<open>norm = 1 / hassign[ci]\<close> are rounded to \<^verbatim>\<open>float\<close>. (The
  increment is evaluated in \<^verbatim>\<open>double\<close> and then converted; with 53 against 24
  significant bits the two roundings give the \<^verbatim>\<open>float\<close> nearest to the exact sum.)
\<close>

definition compute_centroids ::
    "nat \<Rightarrow> nat \<Rightarrow> nat \<Rightarrow> coord_t list \<Rightarrow> idx_t list \<Rightarrow> coord_t list \<Rightarrow> coord_t list
       \<Rightarrow> error + (coord_t list \<times> coord_t list)" where
  "compute_centroids d k n x assign hassign centroids =
     (case memset_zero (d * k) centroids of
        Inl e \<Rightarrow> Inl e
      | Inr c0 \<Rightarrow>
         (case for_each [0..<n]
                 (\<lambda>i (h, c).
                    if \<not> i < length assign then Inl OutOfBounds
                    else let ci = assign ! i in
                      if \<not> ci < k then Inl AssertionFailed
                      else if \<not> (ci * d + d \<le> length c \<and> i * d + d \<le> length x \<and> ci < length h)
                        then Inl OutOfBounds
                      else Inr (h[ci := fl32 (h ! ci + 1)], accumulate_row d ci i x c))
                 (hassign, c0) of
            Inl e \<Rightarrow> Inl e
          | Inr hc \<Rightarrow>
              for_each [0..<k]
                (\<lambda>ci (h, c).
                   if \<not> ci < length h then Inl OutOfBounds
                   else if h ! ci = 0 then Inr (h, c)
                   else if \<not> ci * d + d \<le> length c then Inl OutOfBounds
                   else Inr (h, scale_row d ci (fl32 (1 / h ! ci)) c))
                hc))"

subsection \<open>Empty-cluster repair\<close>

text \<open>The \<^verbatim>\<open>size_t\<close> subtraction \<^verbatim>\<open>n - k\<close>, which wraps modulo \<open>2 ^ 64\<close> when \<open>n < k\<close>.\<close>

definition size_sub :: "nat \<Rightarrow> nat \<Rightarrow> nat" where
  "size_sub n k = (if k \<le> n then n - k else 2 ^ 64 + n - k)"

text \<open>
  The test \<^verbatim>\<open>r < p\<close> with \<^verbatim>\<open>p = (hassign[cj] - 1.0) / (float)(n - k)\<close>. For
  \<open>n = k\<close> the divisor is zero: \<open>p\<close> is \<open>+inf\<close> when \<open>hassign[cj] > 1\<close> (the test
  holds), NaN when \<open>hassign[cj] = 1\<close> and \<open>-inf\<close> below (the test fails).
\<close>

definition donor_accepted :: "real \<Rightarrow> coord_t \<Rightarrow> nat \<Rightarrow> nat \<Rightarrow> bool" where
  "donor_accepted r h n k =
     (if size_sub n k = 0 then 1 < h else r < (h - 1) / real (size_sub n k))"

text \<open>
  The donor search \<^verbatim>\<open>for (cj = 0; 1; cj = (cj + 1) % k)\<close>, lines 139-146, started at
  candidate \<open>cj\<close> with \<open>t\<close> draws already taken from the generator. It returns the
  accepted donor and the number of draws taken so far.
\<close>

partial_function (option) find_donor ::
    "(nat \<Rightarrow> real) \<Rightarrow> nat \<Rightarrow> nat \<Rightarrow> coord_t list \<Rightarrow> nat \<Rightarrow> nat \<Rightarrow> (error + nat \<times> nat) option" where
  "find_donor rng k n hassign cj t =
     (if \<not> cj < length hassign then Some (Inl OutOfBounds)
      else if donor_accepted (rng t) (hassign ! cj) n k then Some (Inr (cj, t + 1))
      else find_donor rng k n hassign ((cj + 1) mod k) (t + 1))"

declare find_donor.simps [code]

text \<open>The "small symmetric pertubation", lines 152-160.\<close>

definition perturb :: "nat \<Rightarrow> nat \<Rightarrow> nat \<Rightarrow> coord_t list \<Rightarrow> coord_t list" where
  "perturb d ci cj centroids =
     fold (\<lambda>j c.
             if j mod 2 = 0
             then (let c1 = c[ci * d + j := c ! (ci * d + j) * (1 + EPS)]
                   in c1[cj * d + j := c1 ! (cj * d + j) * (1 - EPS)])
             else (let c1 = c[ci * d + j := c ! (ci * d + j) * (1 - EPS)]
                   in c1[cj * d + j := c1 ! (cj * d + j) * (1 + EPS)]))
          [0..<d] centroids"

text \<open>
  The repair of the empty slot \<open>ci\<close> from the accepted donor \<open>cj\<close>, lines 147-164:
  the copy of the donor's row, the perturbation, and the "even split" of the
  donor's population.
\<close>

definition split_one ::
    "nat \<Rightarrow> nat \<Rightarrow> nat \<Rightarrow> coord_t list \<Rightarrow> coord_t list
       \<Rightarrow> error + coord_t list \<times> coord_t list" where
  "split_one d ci cj hassign centroids =
     (case memcpy centroids (ci * d) centroids (cj * d) d of
        Inl e \<Rightarrow> Inl e
      | Inr c1 \<Rightarrow>
          let c2 = perturb d ci cj c1;
              h1 = hassign[ci := hassign ! cj / 2];
              h2 = h1[cj := h1 ! cj - h1 ! ci]
          in Inr (h2, c2))"

text \<open>
  The loop over \<open>ci\<close>, lines 136-167. The state is the histogram, the centroid
  table, \<^verbatim>\<open>nsplit\<close> and the number of draws taken from the generator.
\<close>

fun split_loop ::
    "(nat \<Rightarrow> real) \<Rightarrow> nat \<Rightarrow> nat \<Rightarrow> nat \<Rightarrow> nat list
       \<Rightarrow> coord_t list \<times> coord_t list \<times> nat \<times> nat
       \<Rightarrow> (error + coord_t list \<times> coord_t list \<times> nat \<times> nat) option" where
  "split_loop rng d k n [] s = Some (Inr s)"
| "split_loop rng d k n (ci # rest) (hassign, centroids, nsplit, t) =
     (if \<not> ci < length hassign then Some (Inl OutOfBounds)
      else if hassign ! ci = 0 then
        (case find_donor rng k n hassign 0 t of
           None \<Rightarrow> None
         | Some (Inl e) \<Rightarrow> Some (Inl e)
         | Some (Inr (cj, t')) \<Rightarrow>
             (case split_one d ci cj hassign centroids of
                Inl e \<Rightarrow> Some (Inl e)
              | Inr (h2, c2) \<Rightarrow> split_loop rng d k n rest (h2, c2, nsplit + 1, t')))
      else split_loop rng d k n rest (hassign, centroids, nsplit, t))"

text \<open>
  \<^verbatim>\<open>split_clusters\<close>, lines 125-170: a fresh \<^verbatim>\<open>RandomGenerator rng(seed)\<close> per call.
  The result is \<^verbatim>\<open>nsplit\<close> with the updated histogram and centroid table.
\<close>

definition split_clusters ::
    "collaborators \<Rightarrow> nat \<Rightarrow> nat \<Rightarrow> nat \<Rightarrow> coord_t list \<Rightarrow> coord_t list
       \<Rightarrow> (error + nat \<times> coord_t list \<times> coord_t list) option" where
  "split_clusters E d k n hassign centroids =
     (case split_loop (rand_float E seed) d k n [0..<k] (hassign, centroids, 0, 0) of
        None \<Rightarrow> None
      | Some (Inl e) \<Rightarrow> Some (Inl e)
      | Some (Inr (h, c, nsplit, t)) \<Rightarrow> Some (Inr (nsplit, h, c)))"

subsection \<open>Nearest-centroid assigner\<close>

text \<open>\<^verbatim>\<open>ip < min_dist\<close>, where \<open>None\<close> is \<^verbatim>\<open>HUGE_VALF\<close>.\<close>

definition less_min :: "dist_t \<Rightarrow> dist_t option \<Rightarrow> bool" where
  "less_min ip min_dist = (case min_dist of None \<Rightarrow> True | Some m \<Rightarrow> ip < m)"

text \<open>The scan over the centroids for one training row, lines 186-195.\<close>

definition nearest ::
    "collaborators \<Rightarrow> HnswMetadata \<Rightarrow> coord_t list \<Rightarrow> coord_t list
       \<Rightarrow> error + (dist_t option \<times> idx_t)" where
  "nearest E meta centroids x_i =
     (let d = pqSubdim meta; k = 2 ^ pqBits meta
      in for_each [0..<k]
           (\<lambda>j (min_dist, min_idx).
              if \<not> j * d + d \<le> length centroids then Inl OutOfBounds
              else let ip = hnsw_dist_func E (dist_func meta) x_i (row d j centroids) d
                   in if less_min ip min_dist then Inr (Some ip, j)
                      else Inr (min_dist, min_idx))
           (None, 0))"

text \<open>
  \<^verbatim>\<open>calculate_distances\<close>, lines 175-199. The arrays \<^verbatim>\<open>dis\<close> and \<^verbatim>\<open>assign\<close> are
  written at every index below \<open>nx\<close>; the model returns them as lists of length \<open>nx\<close>.
\<close>

definition calculate_distances ::
    "collaborators \<Rightarrow> HnswMetadata \<Rightarrow> coord_t list \<Rightarrow> nat \<Rightarrow> coord_t list
       \<Rightarrow> error + (dist_t option list \<times> idx_t list)" where
  "calculate_distances E meta centroids nx x =
     (let d = pqSubdim meta
      in for_each [0..<nx]
           (\<lambda>i (dis, assign).
              if \<not> i * d + d \<le> length x then Inl OutOfBounds
              else case nearest E meta centroids (row d i x) of
                     Inl e \<Rightarrow> Inl e
                   | Inr (min_dist, min_idx) \<Rightarrow> Inr (dis @ [min_dist], assign @ [min_idx]))
           ([], []))"

subsection \<open>Centroid initializers\<close>

text \<open>
  \<^verbatim>\<open>init_hypercube\<close>, lines 201-228. \<^verbatim>\<open>mean\<close> is a vector of \<open>d\<close> floats, so
  \<^verbatim>\<open>mean[j]\<close> for \<open>j \<ge> d\<close> is out of bounds. For \<open>n = 0\<close> the source divides by
  zero and fills the table with NaN; the model's coordinates are meaningless there.
\<close>

definition hypercube_mean :: "nat \<Rightarrow> nat \<Rightarrow> coord_t list \<Rightarrow> error + real list" where
  "hypercube_mean d n x =
     (case for_each [0..<n]
             (\<lambda>i mean. if \<not> i * d + d \<le> length x then Inl OutOfBounds
                        else Inr (fold (\<lambda>j m. m[j := m ! j + x ! (i * d + j)]) [0..<d] mean))
             (replicate d 0) of
        Inl e \<Rightarrow> Inl e
      | Inr mean \<Rightarrow> Inr (map (\<lambda>m. m / real n) mean))"

definition hypercube_maxm :: "real list \<Rightarrow> real" where
  "hypercube_maxm mean = fold (\<lambda>m maxm. if \<bar>m\<bar> > maxm then \<bar>m\<bar> else maxm) mean 0"

definition bit_sign :: "nat \<Rightarrow> nat \<Rightarrow> real" where
  "bit_sign i j = (if (i div 2 ^ j) mod 2 = 1 then 1 else - 1)"

definition init_hypercube ::
    "nat \<Rightarrow> nat \<Rightarrow> nat \<Rightarrow> coord_t list \<Rightarrow> coord_t list \<Rightarrow> error + coord_t list" where
  "init_hypercube d nbits n x centroids =
     (case hypercube_mean d n x of
        Inl e \<Rightarrow> Inl e
      | Inr mean \<Rightarrow>
          let maxm = hypercube_maxm mean
          in for_each [0..<2 ^ nbits]
               (\<lambda>i cents.
                  case for_each [0..<nbits]
                         (\<lambda>j c. if \<not> (j < d \<and> i * d + j < length c) then Inl OutOfBounds
                                 else Inr (c[i * d + j := mean ! j + bit_sign i j * maxm]))
                         cents of
                    Inl e \<Rightarrow> Inl e
                  | Inr c1 \<Rightarrow>
                      for_each [nbits..<d]
                        (\<lambda>j c. if \<not> i * d + j < length c then Inl OutOfBounds
                                else Inr (c[i * d + j := mean ! j]))
                        c1)
               centroids)"

text \<open>\<^verbatim>\<open>init_hypercube_pca\<close>, lines 230-251.\<close>

definition init_hypercube_pca ::
    "collaborators \<Rightarrow> nat \<Rightarrow> nat \<Rightarrow> nat \<Rightarrow> coord_t list \<Rightarrow> coord_t list \<Rightarrow> error + coord_t list" where
  "init_hypercube_pca E d nbits n x centroids =
     (case pca_train E d nbits n x of
        (mean, eigenvalues, PCAMat) \<Rightarrow>
          for_each [0..<2 ^ nbits]
            (\<lambda>i cents.
               for_each [0..<d]
                 (\<lambda>j c.
                    if \<not> (j < length mean \<and> i * d + j < length c) then Inl OutOfBounds
                    else for_each [0..<nbits]
                           (\<lambda>k c'.
                              if \<not> (k < length eigenvalues \<and> j + k * d < length PCAMat)
                              then Inl OutOfBounds
                              else Inr (c'[i * d + j := c' ! (i * d + j)
                                           + 1 * c_sqrt E (eigenvalues ! k) * bit_sign i k
                                               * PCAMat ! (j + k * d)]))
                           (c[i * d + j := mean ! j]))
                 cents)
            centroids)"

text \<open>The default initializer, lines 277-286: \<open>k\<close> rows drawn by a permutation seeded with \<open>seed + 1\<close>.\<close>

definition init_random ::
    "collaborators \<Rightarrow> nat \<Rightarrow> nat \<Rightarrow> nat \<Rightarrow> coord_t list \<Rightarrow> coord_t list \<Rightarrow> error + coord_t list" where
  "init_random E d k nx x centroids =
     (let perm = rand_perm E nx (seed + 1)
      in for_each [0..<k]
           (\<lambda>i c. case perm_at perm nx i of
                     Inl e \<Rightarrow> Inl e
                   | Inr p \<Rightarrow> memcpy c (i * d) x (p * d) d)
           centroids)"

text \<open>The \<^verbatim>\<open>switch (trainType)\<close>, lines 268-287.\<close>

definition init_centroids ::
    "collaborators \<Rightarrow> TrainType \<Rightarrow> HnswMetadata \<Rightarrow> nat \<Rightarrow> coord_t list \<Rightarrow> coord_t list
       \<Rightarrow> error + coord_t list" where
  "init_centroids E trainType meta nx x centroids =
     (case trainType of
        TT_HYPERCUBE \<Rightarrow> init_hypercube (pqSubdim meta) (pqBits meta) nx x centroids
      | TT_HYPERCUBE_PCA \<Rightarrow> init_hypercube_pca E (pqSubdim meta) (pqBits meta) nx x centroids
      | TT_DEFAULT \<Rightarrow> init_random E (pqSubdim meta) (2 ^ pqBits meta) nx x centroids)"

subsection \<open>Training orchestrator\<close>

text \<open>\<^verbatim>\<open>obj += dis[j]\<close> on values that may be the infinite sentinel.\<close>

fun ext_add :: "real option \<Rightarrow> real option \<Rightarrow> real option" where
  "ext_add (Some a) (Some b) = Some (a + b)"
| "ext_add _ _ = None"

definition objective :: "dist_t option list \<Rightarrow> real option" where
  "objective dis = fold (\<lambda>v obj. ext_add obj v) dis (Some 0)"

text \<open>
  The exit test \<^verbatim>\<open>(prev_obj - obj) / prev_obj < min_improvement\<close>, line 316, with
  \<open>None\<close> for \<^verbatim>\<open>HUGE_VAL\<close>. With \<^verbatim>\<open>prev_obj\<close> infinite the quotient is NaN and the
  test fails. With \<^verbatim>\<open>prev_obj\<close> finite and \<^verbatim>\<open>obj\<close> infinite the quotient is \<open>-inf\<close>
  for \<open>prev_obj \<ge> 0\<close> and \<open>+inf\<close> below. With \<open>prev_obj = 0\<close> the quotient is \<open>-inf\<close>
  for \<open>obj > 0\<close>, NaN for \<open>obj = 0\<close> and \<open>+inf\<close> for \<open>obj < 0\<close>.
\<close>

fun converged :: "real option \<Rightarrow> real option \<Rightarrow> bool" where
  "converged None obj = False"
| "converged (Some p) None = (0 \<le> p)"
| "converged (Some p) (Some obj) =
     (if p = 0 then 0 < obj else (p - obj) / p < min_improvement)"

text \<open>
  The loop of lines 307-333: \<open>m\<close> iterations are left, \<open>i\<close> is the loop counter.
  Each iteration logs its objective (\<^verbatim>\<open>fprintf(stderr, "Iteration ...")\<close>).
\<close>

fun kmeans_iterations ::
    "collaborators \<Rightarrow> HnswMetadata \<Rightarrow> nat \<Rightarrow> coord_t list \<Rightarrow> nat \<Rightarrow> nat \<Rightarrow> real option
       \<Rightarrow> coord_t list \<Rightarrow> log_line list \<Rightarrow> (error + train_result) option" where
  "kmeans_iterations E meta nx x 0 i prev_obj centroids lg =
     Some (Inr \<lparr>ok = True, table = centroids, stderr_log = lg\<rparr>)"
| "kmeans_iterations E meta nx x (Suc m) i prev_obj centroids lg =
     (case calculate_distances E meta centroids nx x of
        Inl e \<Rightarrow> Some (Inl e)
      | Inr (dis, assign) \<Rightarrow>
          let obj = objective dis;
              lg' = lg @ [Iteration i obj]
          in if converged prev_obj obj
             then Some (Inr \<lparr>ok = True, table = centroids, stderr_log = lg'\<rparr>)
             else
               (case compute_centroids (pqSubdim meta) (2 ^ pqBits meta) nx x assign
                       (replicate (2 ^ pqBits meta) 0) centroids of
                  Inl e \<Rightarrow> Some (Inl e)
                | Inr (hassign, c1) \<Rightarrow>
                    (case split_clusters E (pqSubdim meta) (2 ^ pqBits meta) nx hassign c1 of
                       None \<Rightarrow> None
                     | Some (Inl e) \<Rightarrow> Some (Inl e)
                     | Some (Inr (nsplit, h2, c2)) \<Rightarrow>
                         kmeans_iterations E meta nx x m (i + 1) obj c2 lg')))"

text \<open>
  Lines 298-334: the corner case and the iterations, on the training set
  \<open>(nx, x)\<close> that the size checks have selected.
\<close>

definition train_on ::
    "collaborators \<Rightarrow> HnswMetadata \<Rightarrow> nat \<Rightarrow> coord_t list \<Rightarrow> coord_t list \<Rightarrow> log_line list
       \<Rightarrow> (error + train_result) option" where
  "train_on E meta nx x centroids lg =
     (let d = pqSubdim meta; k = 2 ^ pqBits meta
      in if nx = k then
           (case memcpy centroids 0 x 0 (d * k) of
              Inl e \<Rightarrow> Some (Inl e)
            | Inr c \<Rightarrow> Some (Inr \<lparr>ok = True, table = c, stderr_log = lg\<rparr>))
         else kmeans_iterations E meta nx x max_iterations 0 None centroids lg)"

text \<open>
  \<^verbatim>\<open>pq_train\<close>, lines 256-335. \<open>trainType\<close> is the process-wide mode variable;
  \<open>centroids\<close> is the caller's output buffer as it is on entry. The result is the
  returned flag, the output buffer on return and the lines written to \<^verbatim>\<open>stderr\<close>.
\<close>

definition pq_train ::
    "collaborators \<Rightarrow> TrainType \<Rightarrow> HnswMetadata \<Rightarrow> nat \<Rightarrow> coord_t list \<Rightarrow> coord_t list
       \<Rightarrow> (error + train_result) option" where
  "pq_train E trainType meta slice_len slice centroids =
     (let d = pqSubdim meta; k = 2 ^ pqBits meta
      in case init_centroids E trainType meta slice_len slice centroids of
           Inl e \<Rightarrow> Some (Inl e)
         | Inr c0 \<Rightarrow>
             if slice_len > k * max_points_per_centroid then
               (case subsample_training_set E d k slice_len slice of
                  Inl e \<Rightarrow> Some (Inl e)
                | Inr (nx, x_new) \<Rightarrow> train_on E meta nx x_new c0 [Subsample nx])
             else if slice_len < k * min_points_per_centroid then
               Some (Inr \<lparr>ok = False, table = c0, stderr_log = []\<rparr>)
             else train_on E meta slice_len slice c0 [])"

subsection \<open>Notions used to state the properties\<close>

text \<open>The training vectors assigned to centroid \<open>ci\<close> among the first \<open>m\<close>, in index order.\<close>

definition members :: "idx_t list \<Rightarrow> nat \<Rightarrow> nat \<Rightarrow> nat list" where
  "members assign m ci = filter (\<lambda>i. assign ! i = ci) [0..<m]"

text \<open>
  The sum of a list of coordinates as a \<^verbatim>\<open>float\<close> accumulator computes it: from zero,
  in the order of the list, every partial sum rounded.
\<close>

definition float_sum :: "coord_t list \<Rightarrow> coord_t" where
  "float_sum vs = foldl (\<lambda>a v. fl32 (a + v)) 0 vs"

text \<open>
  A \<^verbatim>\<open>float\<close> result is finite when it is below \<open>2 ^ 128\<close> in magnitude; beyond, the
  source has an infinity, which the model does not have. \<open>sum_in_range a vs\<close>: every
  partial sum of the accumulation of \<open>vs\<close> onto \<open>a\<close> is finite.
\<close>

definition in_float_range :: "real \<Rightarrow> bool" where
  "in_float_range v = (\<bar>v\<bar> < 2 ^ 128)"

fun sum_in_range :: "coord_t \<Rightarrow> coord_t list \<Rightarrow> bool" where
  "sum_in_range a [] = True"
| "sum_in_range a (v # vs) = (in_float_range (fl32 (a + v)) \<and> sum_in_range (fl32 (a + v)) vs)"

text \<open>The largest count that a \<^verbatim>\<open>float\<close> histogram entry reaches by steps of one: \<open>2 ^ 24\<close>.\<close>

definition float_count_max :: nat where
  "float_count_max = 16777216"

subsection \<open>Example inputs\<close>

text \<open>
  Collaborators used to run the model on concrete inputs: the permutation that
  reverses \<open>[0, n)\<close>, a generator whose draws are all \<open>0\<close>, the Manhattan
  distance, and a PCA that returns zeros.
\<close>

definition E_rev :: collaborators where
  "E_rev = \<lparr>rand_perm = (\<lambda>n s. rev [0..<n]),
            rand_float = (\<lambda>s t. 0),
            hnsw_dist_func = (\<lambda>f a b d. sum_list (map2 (\<lambda>u v. \<bar>u - v\<bar>) a b)),
            pca_train = (\<lambda>d nbits n x. (replicate d 0, replicate nbits 0, replicate (d * nbits) 0)),
            c_sqrt = (\<lambda>v. v)\<rparr>"

text \<open>One-dimensional vectors, one centroid (\<open>pqBits = 0\<close>).\<close>

definition meta_1_1 :: HnswMetadata where
  "meta_1_1 = \<lparr>pqSubdim = 1, pqBits = 0, dist_func = 0\<rparr>"


text \<open>One-dimensional vectors, two centroids (\<open>pqBits = 1\<close>).\<close>

definition meta_1_2 :: HnswMetadata where
  "meta_1_2 = \<lparr>pqSubdim = 1, pqBits = 1, dist_func = 0\<rparr>"

text \<open>
  The order of the stages in the words of the specification (section 4.6,
  "Init, Subsample, InitializeCentroids, ..."): the training set is subsampled
  first and the initializer runs on the subsampled set. This definition is
  compared with \<open>pq_train\<close>, which follows the source.
\<close>

definition pq_train_spec_order ::
    "collaborators \<Rightarrow> TrainType \<Rightarrow> HnswMetadata \<Rightarrow> nat \<Rightarrow> coord_t list \<Rightarrow> coord_t list
       \<Rightarrow> (error + train_result) option" where
  "pq_train_spec_order E trainType meta slice_len slice centroids =
     (let d = pqSubdim meta; k = 2 ^ pqBits meta
      in if slice_len > k * max_points_per_centroid then
           (case subsample_training_set E d k slice_len slice of
              Inl e \<Rightarrow> Some (Inl e)
            | Inr (nx, x_new) \<Rightarrow>
                (case init_centroids E trainType meta nx x_new centroids of
                   Inl e \<Rightarrow> Some (Inl e)
                 | Inr c0 \<Rightarrow> train_on E meta nx x_new c0 [Subsample nx]))
         else
           (case init_centroids E trainType meta slice_len slice centroids of
              Inl e \<Rightarrow> Some (Inl e)
            | Inr c0 \<Rightarrow>
                if slice_len < k * min_points_per_centroid
                then Some (Inr \<lparr>ok = False, table = c0, stderr_log = []\<rparr>)
                else train_on E meta slice_len slice c0 []))"

text \<open>The objective values that a run has logged, in the order of the iterations.\<close>

fun objectives :: "log_line list \<Rightarrow> real option list" where
  "objectives [] = []"
| "objectives (Iteration i obj # lg) = obj # objectives lg"
| "objectives (Subsample n # lg) = objectives lg"

text \<open>
  \<open>continues prev os\<close>: the loop, entered with previous objective \<open>prev\<close>, went on
  after each of the objectives \<open>os\<close> but the last, that is, the exit test of
  line 316 failed there.
\<close>

fun continues :: "real option \<Rightarrow> real option list \<Rightarrow> bool" where
  "continues prev [] = True"
| "continues prev [obj] = True"
| "continues prev (obj # obj' # os) = (\<not> converged prev obj \<and> continues obj (obj' # os))"

text \<open>Two tables of the same length that agree on their first \<open>m\<close> cells.\<close>

definition agree :: "nat \<Rightarrow> coord_t list \<Rightarrow> coord_t list \<Rightarrow> bool" where
  "agree m c c' = (length c = length c' \<and> (\<forall>p<m. c ! p = c' ! p))"

section \<open>Loops and buffers\<close>

lemma for_each_append:
  "for_each (xs @ ys) body s =
     (case for_each xs body s of Inl e \<Rightarrow> Inl e | Inr s' \<Rightarrow> for_each ys body s')"
  by (induction xs arbitrary: s) (auto split: sum.splits)

lemma for_each_upt_Suc:
  "for_each [0..<Suc n] body s =
     (case for_each [0..<n] body s of Inl e \<Rightarrow> Inl e | Inr s' \<Rightarrow> body n s')"
  by (simp add: for_each_append split: sum.splits)

lemma for_each_invariant:
  assumes "I 0 s0"
    and "\<And>i s. i < n \<Longrightarrow> I i s \<Longrightarrow> \<exists>s'. body i s = Inr s' \<and> I (Suc i) s'"
  shows "\<exists>s. for_each [0..<n] body s0 = Inr s \<and> I n s"
  using assms(2)
proof (induction n)
  case 0
  then show ?case using assms(1) by simp
next
  case (Suc n)
  then obtain s where s: "for_each [0..<n] body s0 = Inr s" "I n s"
    by (meson less_Suc_eq)
  from Suc.prems[of n s] s(2) obtain s' where "body n s = Inr s'" "I (Suc n) s'"
    by auto
  with s show ?case
    by (simp only: for_each_upt_Suc) simp
qed

lemma memcpy_length:
  "memcpy dst doff src soff len = Inr r \<Longrightarrow> length r = length dst"
  by (auto simp: memcpy_def split: if_splits)

lemma memcpy_nth:
  assumes "memcpy dst doff src soff len = Inr r" "p < length dst"
  shows "r ! p = (if doff \<le> p \<and> p < doff + len then src ! (soff + (p - doff)) else dst ! p)"
  using assms
  by (auto simp: memcpy_def nth_append split: if_splits)

lemma memcpy_ok:
  "doff + len \<le> length dst \<Longrightarrow> soff + len \<le> length src \<Longrightarrow> \<exists>r. memcpy dst doff src soff len = Inr r"
  by (simp add: memcpy_def)

lemma row_nth: "i * d + d \<le> length buf \<Longrightarrow> j < d \<Longrightarrow> row d i buf ! j = buf ! (i * d + j)"
  by (simp add: row_def)

lemma row_length: "i * d + d \<le> length buf \<Longrightarrow> length (row d i buf) = d"
  by (simp add: row_def)

lemma singleton_list: "length xs = Suc 0 \<Longrightarrow> xs = [xs ! 0]"
  by (cases xs) simp_all


section \<open>The subsampler\<close>

lemma row_bound: "(i::nat) < n \<Longrightarrow> i * d + d \<le> n * d"
proof -
  assume "i < n"
  then have "Suc i \<le> n" by simp
  then have "Suc i * d \<le> n * d" by (rule mult_le_mono1)
  then show ?thesis by simp
qed

lemma row_eqI:
  assumes "i * d + d \<le> length a" "p * d + d \<le> length b"
    and "\<And>j. j < d \<Longrightarrow> a ! (i * d + j) = b ! (p * d + j)"
  shows "row d i a = row d p b"
  using assms by (intro nth_equalityI) (simp_all add: row_length row_nth)

lemma perm_contract_length:
  "distinct perm \<Longrightarrow> set perm = {0..<nx} \<Longrightarrow> length perm = nx"
  using distinct_card[of perm] by simp

lemma copy_rows_loop:
  assumes len: "length perm = nx" and rng: "\<forall>i<m. perm ! i < nx" and m: "m \<le> nx"
    and x: "length x = nx * d" and b: "length buf = m * d"
  shows "\<exists>x_new. for_each [0..<m]
            (\<lambda>i x_new. case perm_at perm nx i of
                           Inl e \<Rightarrow> Inl e
                         | Inr p \<Rightarrow> memcpy x_new (i * d) x (p * d) d) buf = Inr x_new
          \<and> length x_new = m * d
          \<and> (\<forall>i<m. \<forall>j<d. x_new ! (i * d + j) = x ! (perm ! i * d + j))"
proof -
  let ?body = "\<lambda>i x_new. case perm_at perm nx i of
                           Inl e \<Rightarrow> Inl e
                         | Inr p \<Rightarrow> memcpy x_new (i * d) x (p * d) d"
  let ?I = "\<lambda>c xn. length xn = m * d \<and> (\<forall>i<c. \<forall>j<d. xn ! (i * d + j) = x ! (perm ! i * d + j))"
  have "\<exists>s. for_each [0..<m] ?body buf = Inr s \<and> ?I m s"
  proof (rule for_each_invariant[where I = ?I and body = ?body])
    show "?I 0 buf" using b by simp
  next
    fix i s assume i: "i < m" and I: "?I i s"
    have pa: "perm_at perm nx i = Inr (perm ! i)"
      using i m len by (simp add: perm_at_def)
    have d1: "i * d + d \<le> length s" using I row_bound[OF i] by simp
    have d2: "perm ! i * d + d \<le> length x" using rng i x row_bound by simp
    from memcpy_ok[OF d1 d2] obtain r where r: "memcpy s (i * d) x (perm ! i * d) d = Inr r"
      by blast
    have lr: "length r = m * d" using memcpy_length[OF r] I by simp
    have "\<forall>i'<Suc i. \<forall>j<d. r ! (i' * d + j) = x ! (perm ! i' * d + j)"
    proof (intro allI impI)
      fix i' j assume i': "i' < Suc i" and j: "j < d"
      have inb: "i' * d + j < length s"
        using row_bound[of i' m d] i' i j I by simp
      show "r ! (i' * d + j) = x ! (perm ! i' * d + j)"
      proof (cases "i' = i")
        case True
        then show ?thesis using memcpy_nth[OF r inb] j by simp
      next
        case False
        then have lt: "i' < i" using i' by simp
        then have "i' * d + j < i * d" using row_bound[OF lt, of d] j by simp
        then show ?thesis using memcpy_nth[OF r inb] I lt j by simp
      qed
    qed
    then show "\<exists>s'. ?body i s = Inr s' \<and> ?I (Suc i) s'"
      using pa r lr by simp
  qed
  then show ?thesis by blast
qed

lemma subsample_rows:
  assumes big: "k * max_points_per_centroid < nx"
    and x: "length x = nx * d"
    and perm: "distinct (rand_perm E nx seed)" "set (rand_perm E nx seed) = {0..<nx}"
  shows "\<exists>x_new. subsample_training_set E d k nx x = Inr (k * max_points_per_centroid, x_new)
           \<and> length x_new = k * max_points_per_centroid * d
           \<and> (\<forall>i<k * max_points_per_centroid.
                 rand_perm E nx seed ! i < nx
                 \<and> row d i x_new = row d (rand_perm E nx seed ! i) x)
           \<and> distinct (take (k * max_points_per_centroid) (rand_perm E nx seed))"
proof -
  let ?perm = "rand_perm E nx seed"
  let ?m = "k * max_points_per_centroid"
  have len: "length ?perm = nx" using perm by (rule perm_contract_length)
  have rng: "\<forall>i<nx. ?perm ! i < nx"
    using perm(2) len nth_mem[of _ ?perm] by auto
  then have rng': "\<forall>i<?m. ?perm ! i < nx" using big by simp
  have m: "?m \<le> nx" using big by simp
  from copy_rows_loop[OF len rng' m x, of "replicate (?m * d) 0"]
  obtain x_new where r: "for_each [0..<?m]
            (\<lambda>i x_new. case perm_at ?perm nx i of
                           Inl e \<Rightarrow> Inl e
                         | Inr p \<Rightarrow> memcpy x_new (i * d) x (p * d) d) (replicate (?m * d) 0) = Inr x_new"
     and l: "length x_new = ?m * d"
     and e: "\<forall>i<?m. \<forall>j<d. x_new ! (i * d + j) = x ! (?perm ! i * d + j)"
    by auto
  have rows: "\<forall>i<?m. ?perm ! i < nx \<and> row d i x_new = row d (?perm ! i) x"
  proof (intro allI impI conjI)
    fix i assume i: "i < ?m"
    show "?perm ! i < nx" using rng' i by simp
    show "row d i x_new = row d (?perm ! i) x"
    proof (rule row_eqI)
      show "i * d + d \<le> length x_new" using row_bound[OF i] l by simp
      show "?perm ! i * d + d \<le> length x" using rng' i x row_bound by simp
      show "\<And>j. j < d \<Longrightarrow> x_new ! (i * d + j) = x ! (?perm ! i * d + j)" using e i by simp
    qed
  qed
  have "subsample_training_set E d k nx x = Inr (?m, x_new)"
    using r by (simp add: subsample_training_set_def Let_def)
  moreover have "distinct (take ?m ?perm)" using perm(1) by (rule distinct_take)
  ultimately show ?thesis using l rows by blast
qed

text \<open>
  Claim C6. When the training set has more than \<open>k * 256\<close> rows, the subsampler
  returns a new buffer of exactly \<open>k * 256\<close> rows; row \<open>i\<close> of it is a copy of row
  \<open>perm[i]\<close> of the input, where \<open>perm\<close> is the permutation of \<open>[0, nx)\<close> drawn with
  the fixed seed, so that the rows copied are distinct rows of the input, in the
  order of the permutation; \<^verbatim>\<open>pq_train\<close> then trains on the new buffer and logs the
  subsampling. When the training set has at most \<open>k * 256\<close> rows nothing is copied:
  \<^verbatim>\<open>pq_train\<close> goes on with the caller's slice itself. The input buffer is only
  read in both cases. The premises are the caller's contract (the slice holds
  \<open>slice_len\<close> rows) and the contract of \<^verbatim>\<open>rand_perm\<close> (a permutation of \<open>[0, nx)\<close>).
\<close>

theorem subsample_training_set_copies_rows:
  assumes x: "length slice = slice_len * pqSubdim meta"
    and perm: "distinct (rand_perm E slice_len seed)"
              "set (rand_perm E slice_len seed) = {0..<slice_len}"
  shows "(2 ^ pqBits meta * max_points_per_centroid < slice_len \<longrightarrow>
            (\<exists>x_new.
                subsample_training_set E (pqSubdim meta) (2 ^ pqBits meta) slice_len slice
                  = Inr (2 ^ pqBits meta * max_points_per_centroid, x_new)
              \<and> length x_new = 2 ^ pqBits meta * max_points_per_centroid * pqSubdim meta
              \<and> (\<forall>i<2 ^ pqBits meta * max_points_per_centroid.
                     rand_perm E slice_len seed ! i < slice_len
                     \<and> row (pqSubdim meta) i x_new
                         = row (pqSubdim meta) (rand_perm E slice_len seed ! i) slice)
              \<and> distinct (take (2 ^ pqBits meta * max_points_per_centroid)
                               (rand_perm E slice_len seed))
              \<and> pq_train E trainType meta slice_len slice centroids =
                    (case init_centroids E trainType meta slice_len slice centroids of
                       Inl e \<Rightarrow> Some (Inl e)
                     | Inr c0 \<Rightarrow>
                         train_on E meta (2 ^ pqBits meta * max_points_per_centroid) x_new c0
                           [Subsample (2 ^ pqBits meta * max_points_per_centroid)])))
       \<and> (slice_len \<le> 2 ^ pqBits meta * max_points_per_centroid \<longrightarrow>
            pq_train E trainType meta slice_len slice centroids =
              (case init_centroids E trainType meta slice_len slice centroids of
                 Inl e \<Rightarrow> Some (Inl e)
               | Inr c0 \<Rightarrow>
                   if slice_len < 2 ^ pqBits meta * min_points_per_centroid
                   then Some (Inr \<lparr>ok = False, table = c0, stderr_log = []\<rparr>)
                   else train_on E meta slice_len slice c0 []))"
proof (intro conjI impI)
  assume big: "2 ^ pqBits meta * max_points_per_centroid < slice_len"
  from subsample_rows[OF big x perm] obtain x_new where
    r: "subsample_training_set E (pqSubdim meta) (2 ^ pqBits meta) slice_len slice
          = Inr (2 ^ pqBits meta * max_points_per_centroid, x_new)"
    and rest: "length x_new = 2 ^ pqBits meta * max_points_per_centroid * pqSubdim meta"
      "\<forall>i<2 ^ pqBits meta * max_points_per_centroid.
          rand_perm E slice_len seed ! i < slice_len
          \<and> row (pqSubdim meta) i x_new
              = row (pqSubdim meta) (rand_perm E slice_len seed ! i) slice"
      "distinct (take (2 ^ pqBits meta * max_points_per_centroid) (rand_perm E slice_len seed))"
    by blast
  have "pq_train E trainType meta slice_len slice centroids =
          (case init_centroids E trainType meta slice_len slice centroids of
             Inl e \<Rightarrow> Some (Inl e)
           | Inr c0 \<Rightarrow>
               train_on E meta (2 ^ pqBits meta * max_points_per_centroid) x_new c0
                 [Subsample (2 ^ pqBits meta * max_points_per_centroid)])"
    using big r by (simp add: pq_train_def Let_def split: sum.splits)
  with r rest show "\<exists>x_new.
                subsample_training_set E (pqSubdim meta) (2 ^ pqBits meta) slice_len slice
                  = Inr (2 ^ pqBits meta * max_points_per_centroid, x_new)
              \<and> length x_new = 2 ^ pqBits meta * max_points_per_centroid * pqSubdim meta
              \<and> (\<forall>i<2 ^ pqBits meta * max_points_per_centroid.
                     rand_perm E slice_len seed ! i < slice_len
                     \<and> row (pqSubdim meta) i x_new
                         = row (pqSubdim meta) (rand_perm E slice_len seed ! i) slice)
              \<and> distinct (take (2 ^ pqBits meta * max_points_per_centroid)
                               (rand_perm E slice_len seed))
              \<and> pq_train E trainType meta slice_len slice centroids =
                    (case init_centroids E trainType meta slice_len slice centroids of
                       Inl e \<Rightarrow> Some (Inl e)
                     | Inr c0 \<Rightarrow>
                         train_on E meta (2 ^ pqBits meta * max_points_per_centroid) x_new c0
                           [Subsample (2 ^ pqBits meta * max_points_per_centroid)])"
    by blast
next
  assume "slice_len \<le> 2 ^ pqBits meta * max_points_per_centroid"
  then show "pq_train E trainType meta slice_len slice centroids =
              (case init_centroids E trainType meta slice_len slice centroids of
                 Inl e \<Rightarrow> Some (Inl e)
               | Inr c0 \<Rightarrow>
                   if slice_len < 2 ^ pqBits meta * min_points_per_centroid
                   then Some (Inr \<lparr>ok = False, table = c0, stderr_log = []\<rparr>)
                   else train_on E meta slice_len slice c0 [])"
    by (simp add: pq_train_def Let_def split: sum.splits)
qed

theorem subsample_training_set_copies_rows_witness:
  "(\<exists>x_new. subsample_training_set E_rev 1 1 257 (replicate 256 0 @ [1]) = Inr (256, x_new)
       \<and> length x_new = 256
       \<and> row 1 0 x_new = row 1 256 (replicate 256 0 @ [1]))
   \<and> pq_train E_rev TT_DEFAULT meta_1_1 2 [1, 2] [0] =
       (case init_centroids E_rev TT_DEFAULT meta_1_1 2 [1, 2] [0] of
          Inl e \<Rightarrow> Some (Inl e)
        | Inr c0 \<Rightarrow> Some (Inr \<lparr>ok = False, table = c0, stderr_log = []\<rparr>))"
proof -
  have a1: "length (replicate 256 (0::real) @ [1]) = 257 * pqSubdim meta_1_1"
    by (simp add: meta_1_1_def)
  have a2: "distinct (rand_perm E_rev 257 seed)"
    by (simp add: E_rev_def)
  have a3: "set (rand_perm E_rev 257 seed) = {0..<257}"
    by (simp add: E_rev_def)
  have p0: "rand_perm E_rev 257 seed ! 0 = 256"
    by (simp add: E_rev_def rev_nth)
  have b1: "length [1, 2 :: real] = 2 * pqSubdim meta_1_1"
    by (simp add: meta_1_1_def)
  have b2: "distinct (rand_perm E_rev 2 seed)"
    by (simp add: E_rev_def)
  have b3: "set (rand_perm E_rev 2 seed) = {0..<2}"
    by (simp add: E_rev_def)
  from subsample_training_set_copies_rows[OF a1 a2 a3, of TT_DEFAULT "[0]"]
  have w1: "\<exists>x_new. subsample_training_set E_rev 1 1 257 (replicate 256 0 @ [1]) = Inr (256, x_new)
       \<and> length x_new = 256
       \<and> row 1 0 x_new = row 1 256 (replicate 256 0 @ [1])"
    using p0 by (auto simp: meta_1_1_def max_points_per_centroid_def)
  from subsample_training_set_copies_rows[OF b1 b2 b3, of TT_DEFAULT "[0]"]
  have w2: "pq_train E_rev TT_DEFAULT meta_1_1 2 [1, 2] [0] =
       (case init_centroids E_rev TT_DEFAULT meta_1_1 2 [1, 2] [0] of
          Inl e \<Rightarrow> Some (Inl e)
        | Inr c0 \<Rightarrow> Some (Inr \<lparr>ok = False, table = c0, stderr_log = []\<rparr>))"
    by (simp add: meta_1_1_def max_points_per_centroid_def min_points_per_centroid_def
          split: sum.splits)
  from w1 w2 show ?thesis by blast
qed

section \<open>Centroid recomputation\<close>

lemma fold_update_length:
  "length (fold (\<lambda>j c. c[b + j := f j (c ! (b + j))]) js c) = length c"
  by (induction js arbitrary: c) simp_all

lemma fold_update_nth:
  assumes "b + m \<le> length c"
  shows "fold (\<lambda>j c. c[b + j := f j (c ! (b + j))]) [0..<m] c ! p =
           (if b \<le> p \<and> p < b + m then f (p - b) (c ! p) else c ! p)"
  using assms
proof (induction m arbitrary: p)
  case 0
  then show ?case by auto
next
  case (Suc m)
  let ?c = "fold (\<lambda>j c. c[b + j := f j (c ! (b + j))]) [0..<m] c"
  have l: "length ?c = length c" by (rule fold_update_length)
  have IH: "?c ! q = (if b \<le> q \<and> q < b + m then f (q - b) (c ! q) else c ! q)" for q
    using Suc by (simp del: upt_Suc) 
  show ?case
  proof (cases "p = b + m")
    case True
    then show ?thesis using Suc.prems l IH[of "b + m"] by simp
  next
    case False
    then show ?thesis using l IH[of p] by (auto simp: nth_list_update)
  qed
qed

lemma accumulate_row_length: "length (accumulate_row d ci i x c) = length c"
  unfolding accumulate_row_def by (rule fold_update_length)

lemma accumulate_row_nth:
  "ci * d + d \<le> length c \<Longrightarrow>
   accumulate_row d ci i x c ! p =
     (if ci * d \<le> p \<and> p < ci * d + d then fl32 (c ! p + x ! (i * d + (p - ci * d))) else c ! p)"
  unfolding accumulate_row_def
  using fold_update_nth[of "ci * d" d c "\<lambda>j v. fl32 (v + x ! (i * d + j))" p] by simp

lemma scale_row_length: "length (scale_row d ci nrm c) = length c"
  unfolding scale_row_def by (rule fold_update_length)

lemma scale_row_nth:
  "ci * d + d \<le> length c \<Longrightarrow>
   scale_row d ci nrm c ! p =
     (if ci * d \<le> p \<and> p < ci * d + d then fl32 (c ! p * nrm) else c ! p)"
  unfolding scale_row_def
  using fold_update_nth[of "ci * d" d c "\<lambda>j v. fl32 (v * nrm)" p] by simp

lemma row_index_inj:
  assumes "j < d" "ci * d \<le> ci' * d + j" "ci' * d + j < ci * d + (d::nat)"
  shows "ci' = ci"
proof -
  have "(ci' * d + j) div d = ci'" using assms(1) by simp
  moreover have "(ci' * d + j) div d = ci"
  proof -
    obtain r where r: "ci' * d + j = ci * d + r" "r < d"
      using assms(2,3) by (metis add_less_cancel_left le_Suc_ex)
    then show ?thesis by simp
  qed
  ultimately show ?thesis by simp
qed

lemma accumulate_row_cell:
  assumes "ci * d + d \<le> length c" "j < d"
  shows "accumulate_row d ci i x c ! (ci' * d + j) =
           (if ci' = ci then fl32 (c ! (ci' * d + j) + x ! (i * d + j)) else c ! (ci' * d + j))"
proof (cases "ci' = ci")
  case True
  then show ?thesis using assms by (simp add: accumulate_row_nth)
next
  case False
  then have "\<not> (ci * d \<le> ci' * d + j \<and> ci' * d + j < ci * d + d)"
    using row_index_inj[OF assms(2)] by blast
  then show ?thesis using assms False by (auto simp: accumulate_row_nth)
qed

lemma scale_row_cell:
  assumes "ci * d + d \<le> length c" "j < d"
  shows "scale_row d ci nrm c ! (ci' * d + j) =
           (if ci' = ci then fl32 (c ! (ci' * d + j) * nrm) else c ! (ci' * d + j))"
proof (cases "ci' = ci")
  case True
  then show ?thesis using assms by (simp add: scale_row_nth)
next
  case False
  then have "\<not> (ci * d \<le> ci' * d + j \<and> ci' * d + j < ci * d + d)"
    using row_index_inj[OF assms(2)] by blast
  then show ?thesis using assms False by (auto simp: scale_row_nth)
qed

lemma members_0: "members assign 0 ci = []"
  by (simp add: members_def)

lemma members_Suc:
  "members assign (Suc m) ci =
     members assign m ci @ (if assign ! m = ci then [m] else [])"
  by (simp add: members_def)

lemma memset_zero_props:
  assumes "len \<le> length buf"
  shows "\<exists>c0. memset_zero len buf = Inr c0 \<and> length c0 = length buf \<and> (\<forall>p<len. c0 ! p = 0)"
  using assms by (simp add: memset_zero_def nth_append)

subsection \<open>Single-precision rounding of counts\<close>

lemmas fl32_eval = fl32_def normalize_up.simps normalize_down.simps round_even_def Let_def

lemma normalize_down_inv:
  "normalize_down q e = (q', e') \<Longrightarrow> e' \<le> e \<and> q' = q * 2 ^ (e - e')"
proof (induction q e rule: normalize_down.induct)
  case (1 q e)
  show ?case
  proof (cases "8388608 \<le> q \<or> e = 0")
    case True
    then show ?thesis using 1(2) by (simp add: normalize_down.simps)
  next
    case False
    then have r: "normalize_down (q * 2) (e - 1) = (q', e')"
      using 1(2) by (simp add: normalize_down.simps)
    from 1(1)[OF False r] have le: "e' \<le> e - 1" and q: "q' = q * 2 * 2 ^ (e - 1 - e')" by simp_all
    have "e - e' = Suc (e - 1 - e')" using le False by arith
    then show ?thesis using le q by simp
  qed
qed

lemma round_even_of_int: "round_even (of_int z) = z"
  by (simp add: round_even_def)

lemma fl32_0: "fl32 0 = 0"
  by (simp add: fl32_eval)

text \<open>Every count up to \<open>2 ^ 24\<close> is a \<^verbatim>\<open>float\<close>; the successor of \<open>2 ^ 24\<close> is not.\<close>

lemma fl32_of_nat:
  assumes "m \<le> 16777216"
  shows "fl32 (real m) = real m"
proof (cases "m = 16777216")
  case True
  have "fl32 16777216 = 16777216" by (simp add: fl32_eval)
  then show ?thesis using True by simp
next
  case False
  then have lt: "real m < 16777216" using assms by simp
  have up: "normalize_up \<bar>real m\<bar> 1 = (real m, 1)"
    using lt by (simp add: normalize_up.simps)
  obtain q' e' where d: "normalize_down (real m) 149 = (q', e')"
    by (cases "normalize_down (real m) 149")
  from normalize_down_inv[OF d] have le: "e' \<le> 149" and q: "q' = real m * 2 ^ (149 - e')"
    by simp_all
  have "q' = of_int (int m * 2 ^ (149 - e'))" using q by simp
  then have r: "round_even q' = int m * 2 ^ (149 - e')" using round_even_of_int by metis
  have "(2::real) ^ (149 - e') * 2 ^ e' = 2 ^ 149"
    using le by (simp add: power_add[symmetric])
  then have "real m * 2 ^ (149 - e') * 2 ^ e' / 2 ^ 149 = real m"
    by (simp add: mult.assoc)
  then show ?thesis using up d r by (simp add: fl32_def)
qed

lemma fl32_count_step:
  "fl32 (real (min c float_count_max) + 1) = real (min (Suc c) float_count_max)"
proof (cases "c < 16777216")
  case True
  then have "fl32 (real (Suc c)) = real (Suc c)" by (intro fl32_of_nat) simp
  then show ?thesis using True by (simp add: min_def add.commute float_count_max_def)
next
  case False
  have "fl32 (16777216 + 1) = 16777216" by (simp add: fl32_eval)
  then show ?thesis using False by (simp add: min_def float_count_max_def)
qed

lemma fl32_1: "fl32 1 = 1"
  using fl32_of_nat[of 1] by simp

lemma fl32_numeral: "(numeral w :: nat) \<le> 16777216 \<Longrightarrow> fl32 (numeral w) = numeral w"
  using fl32_of_nat[of "numeral w"] by simp

lemma float_sum_Cons: "float_sum (v # vs) = foldl (\<lambda>a v. fl32 (a + v)) (fl32 v) vs"
  by (simp add: float_sum_def)

lemma float_fold_zeros: "fl32 a = a \<Longrightarrow> foldl (\<lambda>a v. fl32 (a + v)) a (replicate m 0) = a"
  by (induction m) simp_all

lemma float_sum_snoc: "float_sum (vs @ [v]) = fl32 (float_sum vs + v)"
  by (simp add: float_sum_def)

lemma float_sum_zeros: "float_sum (replicate m 0) = 0"
  by (induction m) (simp_all add: float_sum_def fl32_0)

subsection \<open>The two loops\<close>

lemma accumulate_loop:
  assumes asg: "\<forall>i<n. assign ! i < k" and la: "n \<le> length assign"
    and lx: "n * d \<le> length x" and lc: "k * d \<le> length c0"
    and z: "\<forall>p<k * d. c0 ! p = 0"
  shows "\<exists>h c. for_each [0..<n]
                 (\<lambda>i (h, c).
                    if \<not> i < length assign then Inl OutOfBounds
                    else let ci = assign ! i in
                      if \<not> ci < k then Inl AssertionFailed
                      else if \<not> (ci * d + d \<le> length c \<and> i * d + d \<le> length x \<and> ci < length h)
                        then Inl OutOfBounds
                      else Inr (h[ci := fl32 (h ! ci + 1)], accumulate_row d ci i x c))
                 (replicate k 0, c0) = Inr (h, c)
          \<and> length h = k \<and> length c = length c0
          \<and> (\<forall>ci<k. h ! ci = real (min (length (members assign n ci)) float_count_max)
                 \<and> (\<forall>j<d. c ! (ci * d + j) =
                        float_sum (map (\<lambda>i. x ! (i * d + j)) (members assign n ci))))"
proof -
  let ?body = "\<lambda>i (h, c).
                    if \<not> i < length assign then Inl OutOfBounds
                    else let ci = assign ! i in
                      if \<not> ci < k then Inl AssertionFailed
                      else if \<not> (ci * d + d \<le> length c \<and> i * d + d \<le> length x \<and> ci < length h)
                        then Inl OutOfBounds
                      else Inr (h[ci := fl32 (h ! ci + 1)], accumulate_row d ci i x c)"
  let ?I = "\<lambda>m (s :: coord_t list \<times> coord_t list).
              length (fst s) = k \<and> length (snd s) = length c0
              \<and> (\<forall>ci<k. fst s ! ci = real (min (length (members assign m ci)) float_count_max)
                    \<and> (\<forall>j<d. snd s ! (ci * d + j) =
                        float_sum (map (\<lambda>i. x ! (i * d + j)) (members assign m ci))))"
  have z': "c0 ! (ci * d + j) = 0" if "ci < k" "j < d" for ci j
  proof -
    have "ci * d + j < k * d" using row_bound[OF that(1), of d] that(2) by simp
    then show ?thesis using z by simp
  qed
  have "\<exists>s. for_each [0..<n] ?body (replicate k 0, c0) = Inr s \<and> ?I n s"
  proof (rule for_each_invariant[where I = ?I and body = ?body])
    show "?I 0 (replicate k 0, c0)" using z' by (simp add: members_0 float_sum_def)
  next
    fix i s assume i: "i < n" and I: "?I i s"
    obtain h c where s: "s = (h, c)" by (cases s)
    let ?ci = "assign ! i"
    have ci: "?ci < k" using asg i by simp
    have b1: "?ci * d + d \<le> length c" using row_bound[OF ci, of d] lc I s by simp
    have b2: "i * d + d \<le> length x" using row_bound[OF i, of d] lx by simp
    have b3: "?ci < length h" using ci I s by simp
    have ia: "i < length assign" using i la by simp
    let ?h' = "h[?ci := fl32 (h ! ?ci + 1)]"
    let ?c' = "accumulate_row d ?ci i x c"
    have step: "?body i s = Inr (?h', ?c')"
      using ia ci b1 b2 b3 s by (simp add: Let_def)
    have "?I (Suc i) (?h', ?c')"
    proof (intro conjI allI impI)
      show "length (fst (?h', ?c')) = k" using I s by simp
      show "length (snd (?h', ?c')) = length c0" using I s by (simp add: accumulate_row_length)
    next
      fix ci' assume c': "ci' < k"
      show "fst (?h', ?c') ! ci' = real (min (length (members assign (Suc i) ci')) float_count_max)"
      proof (cases "ci' = ?ci")
        case True
        have "h ! ?ci = real (min (length (members assign i ?ci)) float_count_max)"
          using I s ci by simp
        then have "fl32 (h ! ?ci + 1) = real (min (Suc (length (members assign i ?ci))) float_count_max)"
          using fl32_count_step by simp
        then show ?thesis using True b3 by (simp add: members_Suc)
      next
        case False
        then show ?thesis using I s c' by (simp add: members_Suc)
      qed
    next
      fix ci' j assume c': "ci' < k" and j: "j < d"
      show "snd (?h', ?c') ! (ci' * d + j) =
              float_sum (map (\<lambda>i. x ! (i * d + j)) (members assign (Suc i) ci'))"
        using I s c' j accumulate_row_cell[OF b1 j, of i x ci']
        by (auto simp: members_Suc float_sum_snoc)
    qed
    with step show "\<exists>s'. ?body i s = Inr s' \<and> ?I (Suc i) s'" by blast
  qed
  then show ?thesis by auto
qed

lemma normalise_loop:
  assumes lh: "length h = k" and lc: "k * d \<le> length c"
  shows "\<exists>c'. for_each [0..<k]
                (\<lambda>ci (h, c).
                   if \<not> ci < length h then Inl OutOfBounds
                   else if h ! ci = 0 then Inr (h, c)
                   else if \<not> ci * d + d \<le> length c then Inl OutOfBounds
                   else Inr (h, scale_row d ci (fl32 (1 / h ! ci)) c))
                (h, c) = Inr (h, c')
          \<and> length c' = length c
          \<and> (\<forall>ci<k. \<forall>j<d. c' ! (ci * d + j) =
                 (if h ! ci = 0 then c ! (ci * d + j)
                  else fl32 (c ! (ci * d + j) * fl32 (1 / h ! ci))))"
proof -
  let ?body = "\<lambda>ci (h, c).
                   if \<not> ci < length h then Inl OutOfBounds
                   else if h ! ci = 0 then Inr (h, c)
                   else if \<not> ci * d + d \<le> length c then Inl OutOfBounds
                   else Inr (h, scale_row d ci (fl32 (1 / h ! ci)) c)"
  let ?I = "\<lambda>m (s :: coord_t list \<times> coord_t list).
              fst s = h \<and> length (snd s) = length c
              \<and> (\<forall>ci<k. \<forall>j<d. snd s ! (ci * d + j) =
                 (if ci < m \<and> h ! ci \<noteq> 0 then fl32 (c ! (ci * d + j) * fl32 (1 / h ! ci))
                  else c ! (ci * d + j)))"
  have "\<exists>s. for_each [0..<k] ?body (h, c) = Inr s \<and> ?I k s"
  proof (rule for_each_invariant[where I = ?I and body = ?body])
    show "?I 0 (h, c)" by simp
  next
    fix m s assume m: "m < k" and I: "?I m s"
    obtain c1 where s: "s = (h, c1)" using I by (cases s) simp
    have b1: "m * d + d \<le> length c1" using row_bound[OF m, of d] lc I s by simp
    show "\<exists>s'. ?body m s = Inr s' \<and> ?I (Suc m) s'"
    proof (cases "h ! m = 0")
      case True
      then have "?body m s = Inr (h, c1)" using m lh s by simp
      moreover have "?I (Suc m) (h, c1)" using I s True by (auto simp: less_Suc_eq)
      ultimately show ?thesis by blast
    next
      case False
      let ?c' = "scale_row d m (fl32 (1 / h ! m)) c1"
      have "?body m s = Inr (h, ?c')" using m lh s b1 False by simp
      moreover have "?I (Suc m) (h, ?c')"
      proof (intro conjI allI impI)
        show "fst (h, ?c') = h" by simp
        show "length (snd (h, ?c')) = length c" using I s by (simp add: scale_row_length)
      next
        fix ci j assume ci: "ci < k" and j: "j < d"
        show "snd (h, ?c') ! (ci * d + j) =
                (if ci < Suc m \<and> h ! ci \<noteq> 0 then fl32 (c ! (ci * d + j) * fl32 (1 / h ! ci))
                 else c ! (ci * d + j))"
          using I s ci j False scale_row_cell[OF b1 j, of "fl32 (1 / h ! m)" ci]
          by (auto simp: less_Suc_eq)
      qed
      ultimately show ?thesis by blast
    qed
  qed
  then show ?thesis by auto
qed

lemma compute_centroids_result:
  assumes asg: "\<forall>i<n. assign ! i < k" and la: "n \<le> length assign"
    and lx: "n * d \<le> length x" and lc: "d * k \<le> length centroids"
  shows "\<exists>h c. compute_centroids d k n x assign (replicate k 0) centroids = Inr (h, c)
           \<and> length h = k \<and> length c = length centroids
           \<and> (\<forall>ci<k. h ! ci = real (min (length (members assign n ci)) float_count_max)
                  \<and> (\<forall>j<d. c ! (ci * d + j) =
                         (if members assign n ci = [] then 0
                          else fl32 (float_sum (map (\<lambda>i. x ! (i * d + j)) (members assign n ci))
                                     * fl32 (1 / h ! ci)))))
           \<and> (k = 1 \<and> 0 < n \<longrightarrow>
                (\<forall>j<d. c ! j = fl32 (float_sum (map (\<lambda>i. x ! (i * d + j)) [0..<n])
                                     * fl32 (1 / real (min n float_count_max)))))"
proof -
  from memset_zero_props[OF lc] obtain c0 where
    c0: "memset_zero (d * k) centroids = Inr c0" "length c0 = length centroids"
        "\<forall>p<d * k. c0 ! p = 0"
    by blast
  have lc0: "k * d \<le> length c0" using lc c0(2) by (simp add: mult.commute)
  have z: "\<forall>p<k * d. c0 ! p = 0" using c0(3) by (simp add: mult.commute)
  from accumulate_loop[OF asg la lx lc0 z] obtain h c1 where
    acc: "for_each [0..<n]
                 (\<lambda>i (h, c).
                    if \<not> i < length assign then Inl OutOfBounds
                    else let ci = assign ! i in
                      if \<not> ci < k then Inl AssertionFailed
                      else if \<not> (ci * d + d \<le> length c \<and> i * d + d \<le> length x \<and> ci < length h)
                        then Inl OutOfBounds
                      else Inr (h[ci := fl32 (h ! ci + 1)], accumulate_row d ci i x c))
                 (replicate k 0, c0) = Inr (h, c1)"
    and lh: "length h = k" and lc1: "length c1 = length c0"
    and hv: "\<forall>ci<k. h ! ci = real (min (length (members assign n ci)) float_count_max)
                 \<and> (\<forall>j<d. c1 ! (ci * d + j) =
                        float_sum (map (\<lambda>i. x ! (i * d + j)) (members assign n ci)))"
    by auto
  have lc1': "k * d \<le> length c1" using lc0 lc1 by simp
  from normalise_loop[OF lh lc1'] obtain c where
    nrm: "for_each [0..<k]
                (\<lambda>ci (h, c).
                   if \<not> ci < length h then Inl OutOfBounds
                   else if h ! ci = 0 then Inr (h, c)
                   else if \<not> ci * d + d \<le> length c then Inl OutOfBounds
                   else Inr (h, scale_row d ci (fl32 (1 / h ! ci)) c))
                (h, c1) = Inr (h, c)"
    and lcc: "length c = length c1"
    and cv: "\<forall>ci<k. \<forall>j<d. c ! (ci * d + j) =
                 (if h ! ci = 0 then c1 ! (ci * d + j)
                  else fl32 (c1 ! (ci * d + j) * fl32 (1 / h ! ci)))"
    by blast
  have res: "compute_centroids d k n x assign (replicate k 0) centroids = Inr (h, c)"
    unfolding compute_centroids_def using c0(1) acc nrm by simp
  have hist: "h ! ci = real (min (length (members assign n ci)) float_count_max)"
    if "ci < k" for ci
    using hv that by simp
  have hz: "h ! ci = 0 \<longleftrightarrow> members assign n ci = []" if "ci < k" for ci
    using hist[OF that] by (auto simp: float_count_max_def min_def)
  have cells: "c ! (ci * d + j) =
                 (if members assign n ci = [] then 0
                  else fl32 (float_sum (map (\<lambda>i. x ! (i * d + j)) (members assign n ci))
                             * fl32 (1 / h ! ci)))"
    if "ci < k" "j < d" for ci j
  proof -
    have c1v: "c1 ! (ci * d + j) = float_sum (map (\<lambda>i. x ! (i * d + j)) (members assign n ci))"
      using hv that by simp
    show ?thesis
    proof (cases "members assign n ci = []")
      case True
      then show ?thesis using cv that hz[OF that(1)] c1v by (simp add: float_sum_def)
    next
      case False
      then show ?thesis using cv that hz[OF that(1)] c1v by simp
    qed
  qed
  have one: "\<forall>j<d. c ! j = fl32 (float_sum (map (\<lambda>i. x ! (i * d + j)) [0..<n])
                                     * fl32 (1 / real (min n float_count_max)))"
    if k1: "k = 1" and n: "0 < n"
  proof (intro allI impI)
    fix j assume j: "j < d"
    have m: "members assign n 0 = [0..<n]"
      unfolding members_def using asg k1 by (intro filter_True) simp
    moreover have "[0..<n] \<noteq> []" using n by simp
    moreover have "h ! 0 = real (min n float_count_max)" using hist[of 0] k1 m by simp
    ultimately show "c ! j = fl32 (float_sum (map (\<lambda>i. x ! (i * d + j)) [0..<n])
                                     * fl32 (1 / real (min n float_count_max)))"
      using cells[of 0 j] k1 j by simp
  qed
  show ?thesis
    using res lh lcc lc1 c0(2) hist cells one by auto
qed

lemma compute_centroids_one_row:
  assumes l: "length x = n" and n: "0 < n"
  shows "compute_centroids (Suc 0) (Suc 0) n x (replicate n 0) [0] [v]
           = Inr ([real (min n float_count_max)],
                  [fl32 (float_sum x * fl32 (1 / real (min n float_count_max)))])"
proof -
  have a: "\<forall>i<n. replicate n (0::nat) ! i < 1" by simp
  from compute_centroids_result[where x = x and d = 1 and centroids = "[v]", OF a] l
  obtain h c where r: "compute_centroids (Suc 0) (Suc 0) n x (replicate n 0) [0] [v] = Inr (h, c)"
    and lh: "length h = 1" and lc: "length c = 1"
    and hv: "h ! 0 = real (min (length (members (replicate n 0) n 0)) float_count_max)"
    and cv: "\<forall>j<1. c ! j = fl32 (float_sum (map (\<lambda>i. x ! (i * 1 + j)) [0..<n])
                                     * fl32 (1 / real (min n float_count_max)))"
    using n by auto
  have "members (replicate n 0) n 0 = [0..<n]"
    unfolding members_def by (intro filter_True) simp
  then have h0: "h ! 0 = real (min n float_count_max)" using hv by simp
  have "map (\<lambda>i. x ! i) [0..<n] = x" using l map_nth[of x] by simp
  then have c0: "c ! 0 = fl32 (float_sum x * fl32 (1 / real (min n float_count_max)))"
    using cv by simp
  have "h = [real (min n float_count_max)]" using singleton_list[of h] lh h0 by simp
  moreover have "c = [fl32 (float_sum x * fl32 (1 / real (min n float_count_max)))]"
    using singleton_list[of c] lc c0 by simp
  ultimately show ?thesis using r by simp
qed

text \<open>
  Claim C4, as stated, fails. The table and the histogram are \<^verbatim>\<open>float\<close> buffers.
  For the three one-dimensional vectors 1, 2, 2 and one centroid the source
  computes the sum 5 and multiplies it by the \<^verbatim>\<open>float\<close> nearest to 1/3: the
  centroid is \<open>6990507 / 4194304\<close>, which is neither the mean 5/3 nor the \<^verbatim>\<open>float\<close>
  nearest to it (\<open>13981013 / 8388608\<close>). And a histogram entry that has reached
  \<open>2 ^ 24 = 16777216\<close> stays there, since \<open>2 ^ 24 + 1\<close> is not a \<^verbatim>\<open>float\<close>: with
  16777217 vectors (all zero) assigned to the single centroid the histogram
  entry is 16777216.
\<close>

theorem compute_centroids_mean_counterexample:
  "compute_centroids 1 1 3 [1, 2, 2] [0, 0, 0] (replicate 1 0) [0]
     = Inr ([3], [6990507 / 4194304])
   \<and> (6990507 / 4194304 :: real) \<noteq> (1 + 2 + 2) / 3
   \<and> (6990507 / 4194304 :: real) \<noteq> fl32 ((1 + 2 + 2) / 3)
   \<and> compute_centroids 1 1 16777217 (replicate 16777217 0) (replicate 16777217 0) [0] [0]
     = Inr ([16777216], [0])"
proof -
  have l3: "length [1, 2, 2 :: real] = 3" by simp
  have r3: "replicate 3 (0::nat) = [0, 0, 0]" by (simp add: numeral_3_eq_3)
  have s3: "float_sum [1, 2, 2] = 5" by (simp add: float_sum_def fl32_1 fl32_numeral)
  have m3: "min (3::nat) float_count_max = 3" by (simp add: float_count_max_def)
  have p3: "fl32 (5 * fl32 (1 / 3)) = 6990507 / 4194304" by (simp add: fl32_eval)
  have a: "compute_centroids 1 1 3 [1, 2, 2] [0, 0, 0] (replicate 1 0) [0]
     = Inr ([3], [6990507 / 4194304])"
    using compute_centroids_one_row[OF l3, of 0] by (simp add: r3 s3 m3 p3)
  have b: "(6990507 / 4194304 :: real) \<noteq> (1 + 2 + 2) / 3" by simp
  have "fl32 ((1 + 2 + 2) / 3) = 13981013 / 8388608" by (simp add: fl32_eval)
  then have c: "(6990507 / 4194304 :: real) \<noteq> fl32 ((1 + 2 + 2) / 3)" by simp
  have l: "length (replicate 16777217 (0::real)) = 16777217" by (rule length_replicate)
  have n: "0 < (16777217::nat)" by simp
  have m: "min (16777217::nat) float_count_max = 16777216" by (simp add: float_count_max_def)
  have z: "float_sum (replicate 16777217 0) = 0" by (rule float_sum_zeros)
  have f: "fl32 (0 * fl32 (1 / 16777216)) = 0" by (simp add: fl32_0)
  have r: "real (16777216::nat) = 16777216" by simp
  have "compute_centroids 1 1 16777217 (replicate 16777217 0) (replicate 16777217 0) [0] [0]
     = Inr ([16777216], [fl32 (0 * fl32 (1 / 16777216))])"
    using compute_centroids_one_row[OF l n, of 0]
    by (simp only: m z r One_nat_def)
  then have d: "compute_centroids 1 1 16777217 (replicate 16777217 0) (replicate 16777217 0) [0] [0]
     = Inr ([16777216], [0])"
    by (simp only: f)
  from a b c d show ?thesis by (intro conjI)
qed

text \<open>
  Claim C4, amended. One pass of \<^verbatim>\<open>compute_centroids\<close> over an assignment vector
  whose entries are all below \<open>k\<close>, started as \<^verbatim>\<open>pq_train\<close> starts it (a zeroed
  histogram), ends without error. The histogram entry of every centroid is the
  number of training vectors assigned to it as long as that number is at most
  \<open>2 ^ 24\<close>, and \<open>2 ^ 24\<close> beyond. A centroid with at least one assigned vector is,
  coordinate by coordinate, the \<^verbatim>\<open>float\<close> product of the sum of its assigned
  vectors, accumulated in \<^verbatim>\<open>float\<close> in index order, and the \<^verbatim>\<open>float\<close> reciprocal of
  its histogram entry: the arithmetic mean up to these roundings. A centroid
  with no assigned vector is all zero. For \<open>k = 1\<close> and a non-empty training set
  the single centroid is this rounded mean of all training vectors. The
  statement is for passes in which no coordinate sum overflows the range of
  \<^verbatim>\<open>float\<close> (last premise).
\<close>

theorem compute_centroids_mean:
  assumes "\<forall>i<n. assign ! i < k" and "n \<le> length assign"
    and "n * d \<le> length x" and "d * k \<le> length centroids"
    and "\<forall>ci<k. \<forall>j<d. sum_in_range 0 (map (\<lambda>i. x ! (i * d + j)) (members assign n ci))"
  shows "\<exists>h c. compute_centroids d k n x assign (replicate k 0) centroids = Inr (h, c)
           \<and> length h = k \<and> length c = length centroids
           \<and> (\<forall>ci<k. h ! ci = real (min (length (members assign n ci)) float_count_max)
                  \<and> (\<forall>j<d. c ! (ci * d + j) =
                         (if members assign n ci = [] then 0
                          else fl32 (float_sum (map (\<lambda>i. x ! (i * d + j)) (members assign n ci))
                                     * fl32 (1 / h ! ci)))))
           \<and> (k = 1 \<and> 0 < n \<longrightarrow>
                (\<forall>j<d. c ! j = fl32 (float_sum (map (\<lambda>i. x ! (i * d + j)) [0..<n])
                                     * fl32 (1 / real (min n float_count_max)))))"
  using assms(1-4) by (rule compute_centroids_result)

theorem compute_centroids_mean_witness:
  "(\<exists>h c. compute_centroids 1 2 3 [1, 3, 10] [0, 0, 1] (replicate 2 0) [7, 7] = Inr (h, c)
       \<and> h ! 0 = 2 \<and> h ! 1 = 1 \<and> c ! 0 = 2 \<and> c ! 1 = 10)
   \<and> (\<exists>h c. compute_centroids 2 1 3 [1, 2, 2, 6, 2, 7] [0, 0, 0] (replicate 1 0) [7, 7] = Inr (h, c)
       \<and> c ! 0 = 6990507 / 4194304 \<and> c ! 1 = 5)"
proof -
  have a: "\<forall>i<3. [0, 0, 1 :: nat] ! i < 2"
    by (simp add: less_Suc_eq numeral_3_eq_3)
  have m0: "members [0, 0, Suc 0] 3 0 = [0, Suc 0]" "members [0, 0, 1] 3 0 = [0, 1]"
    and m1: "members [0, 0, Suc 0] 3 (Suc 0) = [2]" "members [0, 0, 1] 3 1 = [2]"
    by (simp_all add: members_def upt_conv_Cons)
  have f: "\<forall>ci<2. \<forall>j<1. sum_in_range 0 (map (\<lambda>i. [1, 3, 10] ! (i * 1 + j)) (members [0, 0, 1] 3 ci))"
    by (simp add: less_Suc_eq numeral_2_eq_2 m0 m1 fl32_1 fl32_numeral in_float_range_def)
  from compute_centroids_mean[where x = "[1, 3, 10]" and d = 1 and centroids = "[7, 7]", OF a _ _ _ f]
  obtain h c where r: "compute_centroids 1 2 3 [1, 3, 10] [0, 0, 1] (replicate 2 0) [7, 7] = Inr (h, c)"
    and v: "\<forall>ci<2. h ! ci = real (min (length (members [0, 0, 1] 3 ci)) float_count_max)
                  \<and> (\<forall>j<1. c ! (ci * 1 + j) =
                         (if members [0, 0, 1] 3 ci = [] then 0
                          else fl32 (float_sum (map (\<lambda>i. [1, 3, 10] ! (i * 1 + j)) (members [0, 0, 1] 3 ci))
                                     * fl32 (1 / h ! ci))))"
    by auto
  have h0: "h ! 0 = 2" and h1: "h ! 1 = 1"
    using v[rule_format, of 0] v[rule_format, of 1] by (simp_all add: m0 m1 float_count_max_def)
  have h1': "h ! Suc 0 = 1" using h1 by simp
  have half: "fl32 (1 / 2) = 1 / 2" by (simp add: fl32_eval)
  have "c ! 0 = 2"
    using v[rule_format, of 0, THEN conjunct2, rule_format, of 0]
    by (simp add: m0 h0 float_sum_def fl32_1 fl32_numeral half)
  moreover have "c ! 1 = 10"
    using v[rule_format, of 1, THEN conjunct2, rule_format, of 0]
    by (simp add: m1 h1' float_sum_def fl32_1 fl32_numeral)
  ultimately have w1: "\<exists>h c. compute_centroids 1 2 3 [1, 3, 10] [0, 0, 1] (replicate 2 0) [7, 7] = Inr (h, c)
       \<and> h ! 0 = 2 \<and> h ! 1 = 1 \<and> c ! 0 = 2 \<and> c ! 1 = 10"
    using r h0 h1 by blast
  have b: "\<forall>i<3. [0, 0, 0 :: nat] ! i < 1"
    by (simp add: less_Suc_eq numeral_3_eq_3)
  have m3: "members [0, 0, 0] 3 0 = [0, 1, 2]"
    by (simp add: members_def upt_conv_Cons)
  have g: "\<forall>ci<1. \<forall>j<2. sum_in_range 0 (map (\<lambda>i. [1, 2, 2, 6, 2, 7] ! (i * 2 + j)) (members [0, 0, 0] 3 ci))"
    by (simp add: less_Suc_eq numeral_2_eq_2 m3 fl32_1 fl32_numeral in_float_range_def)
  from compute_centroids_mean[where x = "[1, 2, 2, 6, 2, 7]" and d = 2 and centroids = "[7, 7]", OF b _ _ _ g]
  obtain h' c' where r': "compute_centroids 2 1 3 [1, 2, 2, 6, 2, 7] [0, 0, 0] (replicate 1 0) [7, 7] = Inr (h', c')"
    and v': "\<forall>j<2. c' ! j = fl32 (float_sum (map (\<lambda>i. [1, 2, 2, 6, 2, 7] ! (i * 2 + j)) [0..<3])
                                     * fl32 (1 / real (min 3 float_count_max)))"
    by auto
  have e2: "fl32 (float_sum [1, 2, 2] * fl32 (1 / 3)) = 6990507 / 4194304"
    and e3: "fl32 (float_sum [2, 6, 7] * fl32 (1 / 3)) = 5"
    by (simp_all add: float_sum_def fl32_eval)
  have "c' ! 0 = 6990507 / 4194304"
    using v'[rule_format, of 0] by (simp add: upt_conv_Cons float_count_max_def e2)
  moreover have "c' ! 1 = 5"
    using v'[rule_format, of 1] by (simp add: upt_conv_Cons float_count_max_def e3)
  ultimately have w2: "\<exists>h c. compute_centroids 2 1 3 [1, 2, 2, 6, 2, 7] [0, 0, 0] (replicate 1 0) [7, 7] = Inr (h, c)
       \<and> c ! 0 = 6990507 / 4194304 \<and> c ! 1 = 5"
    using r' by blast
  from w1 w2 show ?thesis by blast
qed

section \<open>The nearest-centroid assigner\<close>

lemma nearest_result:
  assumes lc: "pqSubdim meta * 2 ^ pqBits meta \<le> length centroids"
  shows "\<exists>v mi. nearest E meta centroids x_i = Inr (Some v, mi) \<and> mi < 2 ^ pqBits meta"
proof -
  let ?d = "pqSubdim meta" and ?k = "2 ^ pqBits meta :: nat"
  let ?body = "\<lambda>j (min_dist, min_idx).
              if \<not> j * ?d + ?d \<le> length centroids then Inl OutOfBounds
              else let ip = hnsw_dist_func E (dist_func meta) x_i (row ?d j centroids) ?d
                   in if less_min ip min_dist then Inr (Some ip, j)
                      else Inr (min_dist, min_idx)"
  let ?I = "\<lambda>(j::nat) (s :: dist_t option \<times> idx_t). snd s < ?k \<and> (0 < j \<longrightarrow> fst s \<noteq> None)"
  have "\<exists>s. for_each [0..<?k] ?body (None, 0) = Inr s \<and> ?I ?k s"
  proof (rule for_each_invariant[where I = ?I and body = ?body])
    show "?I 0 (None, 0)" by simp
  next
    fix j s assume j: "j < ?k" and I: "?I j s"
    obtain md mi where s: "s = (md, mi)" by (cases s)
    have b: "j * ?d + ?d \<le> length centroids"
      using row_bound[OF j, of ?d] lc by (simp add: mult.commute)
    show "\<exists>s'. ?body j s = Inr s' \<and> ?I (Suc j) s'"
    proof (cases md)
      case None
      then show ?thesis using s b j by (simp add: Let_def less_min_def)
    next
      case (Some m)
      then show ?thesis using s b j I by (simp add: Let_def less_min_def)
    qed
  qed
  then obtain md mi where r: "for_each [0..<?k] ?body (None, 0) = Inr (md, mi)"
    and mi: "mi < ?k" and md: "md \<noteq> None"
    by auto
  then obtain v where "md = Some v" by auto
  with r mi show ?thesis by (simp add: nearest_def Let_def)
qed

lemma calculate_distances_result:
  assumes lx: "nx * pqSubdim meta \<le> length x"
    and lc: "pqSubdim meta * 2 ^ pqBits meta \<le> length centroids"
  shows "\<exists>dis assign. calculate_distances E meta centroids nx x = Inr (dis, assign)
           \<and> length dis = nx \<and> length assign = nx
           \<and> (\<forall>i<nx. assign ! i < 2 ^ pqBits meta \<and> dis ! i \<noteq> None)"
proof -
  let ?d = "pqSubdim meta" and ?k = "2 ^ pqBits meta :: nat"
  let ?body = "\<lambda>i (dis, assign).
              if \<not> i * ?d + ?d \<le> length x then Inl OutOfBounds
              else case nearest E meta centroids (row ?d i x) of
                     Inl e \<Rightarrow> Inl e
                   | Inr (min_dist, min_idx) \<Rightarrow> Inr (dis @ [min_dist], assign @ [min_idx])"
  let ?I = "\<lambda>(m::nat) (s :: dist_t option list \<times> idx_t list).
              length (fst s) = m \<and> length (snd s) = m
              \<and> (\<forall>i<m. snd s ! i < ?k \<and> fst s ! i \<noteq> None)"
  have "\<exists>s. for_each [0..<nx] ?body ([], []) = Inr s \<and> ?I nx s"
  proof (rule for_each_invariant[where I = ?I and body = ?body])
    show "?I 0 ([], [])" by simp
  next
    fix i s assume i: "i < nx" and I: "?I i s"
    obtain dis assign where s: "s = (dis, assign)" by (cases s)
    have b: "i * ?d + ?d \<le> length x" using row_bound[OF i, of ?d] lx by simp
    from nearest_result[OF lc, of E "row ?d i x"] obtain v mi where
      n: "nearest E meta centroids (row ?d i x) = Inr (Some v, mi)" and mi: "mi < ?k"
      by blast
    have "?body i s = Inr (dis @ [Some v], assign @ [mi])" using s b n by simp
    moreover have "?I (Suc i) (dis @ [Some v], assign @ [mi])"
      using I s mi by (auto simp: nth_append less_Suc_eq)
    ultimately show "\<exists>s'. ?body i s = Inr s' \<and> ?I (Suc i) s'" by blast
  qed
  then show ?thesis by (auto simp: calculate_distances_def Let_def)
qed

text \<open>
  Claim C10. \<^verbatim>\<open>calculate_distances\<close> computes \<open>k = 2 ^ pqBits\<close> itself, so \<open>k \<ge> 1\<close>.
  On buffers of the sizes the caller promises (\<open>nx\<close> rows of training vectors,
  a centroid table of \<open>k * d\<close> elements) it ends without error and every index
  it writes to \<^verbatim>\<open>assign\<close> is below \<open>k\<close>. Fed with this assignment vector,
  \<^verbatim>\<open>compute_centroids\<close> ends without error as well: its assertion
  \<^verbatim>\<open>ci < k\<close> never fails (no \<open>AssertionFailed\<close>) and no access leaves the
  centroid table or the other buffers (no \<open>OutOfBounds\<close>).
\<close>

theorem calculate_distances_assign_in_range:
  assumes "nx * pqSubdim meta \<le> length x"
    and "pqSubdim meta * 2 ^ pqBits meta \<le> length centroids"
  shows "\<exists>dis assign. calculate_distances E meta centroids nx x = Inr (dis, assign)
           \<and> length assign = nx
           \<and> (\<forall>i<nx. assign ! i < 2 ^ pqBits meta)
           \<and> (\<exists>h c. compute_centroids (pqSubdim meta) (2 ^ pqBits meta) nx x assign
                        (replicate (2 ^ pqBits meta) 0) centroids = Inr (h, c))"
proof -
  from calculate_distances_result[OF assms] obtain dis assign where
    r: "calculate_distances E meta centroids nx x = Inr (dis, assign)"
    and l: "length assign = nx" and a: "\<forall>i<nx. assign ! i < 2 ^ pqBits meta"
    by blast
  have la: "nx \<le> length assign" using l by simp
  from compute_centroids_result[OF a la assms]
  have "\<exists>h c. compute_centroids (pqSubdim meta) (2 ^ pqBits meta) nx x assign
                        (replicate (2 ^ pqBits meta) 0) centroids = Inr (h, c)"
    by blast
  with r l a show ?thesis by blast
qed

theorem calculate_distances_assign_in_range_witness:
  "\<exists>dis assign. calculate_distances E_rev meta_1_1 [5] 2 [1, 2] = Inr (dis, assign)
      \<and> length assign = 2
      \<and> (\<forall>i<2. assign ! i < 1)
      \<and> (\<exists>h c. compute_centroids 1 1 2 [1, 2] assign (replicate 1 0) [5] = Inr (h, c))"
proof -
  have a: "2 * pqSubdim meta_1_1 \<le> length [1, 2 :: real]"
    by (simp add: meta_1_1_def)
  have b: "pqSubdim meta_1_1 * 2 ^ pqBits meta_1_1 \<le> length [5 :: real]"
    by (simp add: meta_1_1_def)
  from calculate_distances_assign_in_range[OF a b, of E_rev]
  show ?thesis by (simp add: meta_1_1_def)
qed

section \<open>Empty-cluster repair\<close>

lemma find_donor_Some:
  assumes "find_donor rng k n h cj t = Some y"
  shows "\<forall>cj' t'. y = Inr (cj', t') \<longrightarrow>
           cj' < length h \<and> t < t' \<and> donor_accepted (rng (t' - 1)) (h ! cj') n k
           \<and> (cj < k \<longrightarrow> cj' < k)"
proof (rule find_donor.raw_induct[where P = "\<lambda>rng k n h cj t y. \<forall>cj' t'. y = Inr (cj', t') \<longrightarrow>
           cj' < length h \<and> t < t' \<and> donor_accepted (rng (t' - 1)) (h ! cj') n k
           \<and> (cj < k \<longrightarrow> cj' < k)", OF _ assms])
  fix fd :: "(nat \<Rightarrow> real) \<Rightarrow> nat \<Rightarrow> nat \<Rightarrow> coord_t list \<Rightarrow> nat \<Rightarrow> nat \<Rightarrow> (error + nat \<times> nat) option"
    and rng k n hassign cj t y
  assume IH: "\<And>rng k n hassign cj t y. fd rng k n hassign cj t = Some y \<Longrightarrow>
                 \<forall>cj' t'. y = Inr (cj', t') \<longrightarrow>
                   cj' < length hassign \<and> t < t' \<and> donor_accepted (rng (t' - 1)) (hassign ! cj') n k
                   \<and> (cj < k \<longrightarrow> cj' < k)"
    and eq: "(if \<not> cj < length hassign then Some (Inl OutOfBounds)
      else if donor_accepted (rng t) (hassign ! cj) n k
           then Some (Inr (cj, t + 1))
           else fd rng k n hassign ((cj + 1) mod k) (t + 1)) = Some y"
  show "\<forall>cj' t'. y = Inr (cj', t') \<longrightarrow>
           cj' < length hassign \<and> t < t' \<and> donor_accepted (rng (t' - 1)) (hassign ! cj') n k
           \<and> (cj < k \<longrightarrow> cj' < k)"
  proof (cases "cj < length hassign")
    case False
    then show ?thesis using eq by auto
  next
    case True
    show ?thesis
    proof (cases "donor_accepted (rng t) (hassign ! cj) n k")
      case acc: True
      then show ?thesis using eq True by auto
    next
      case rej: False
      then have r: "fd rng k n hassign ((cj + 1) mod k) (t + 1) = Some y"
        using eq True by simp
      have "cj < k \<Longrightarrow> (cj + 1) mod k < k" by simp
      with IH[OF r] show ?thesis by auto
    qed
  qed
qed


lemma fold_update2_length:
  "length (fold (\<lambda>j c. (c[b1 + j := f j (c ! (b1 + j))])
                           [b2 + j := g j ((c[b1 + j := f j (c ! (b1 + j))]) ! (b2 + j))]) js c)
     = length c"
  by (induction js arbitrary: c) simp_all


lemma perturb_fold:
  "perturb d ci cj c =
     fold (\<lambda>j c. (c[ci * d + j := (\<lambda>j v. v * (if j mod 2 = 0 then 1 + EPS else 1 - EPS)) j (c ! (ci * d + j))])
                   [cj * d + j := (\<lambda>j v. v * (if j mod 2 = 0 then 1 - EPS else 1 + EPS)) j
                       ((c[ci * d + j := (\<lambda>j v. v * (if j mod 2 = 0 then 1 + EPS else 1 - EPS)) j (c ! (ci * d + j))]) ! (cj * d + j))])
          [0..<d] c"
  unfolding perturb_def
  by (rule arg_cong[where f = "\<lambda>F. fold F [0..<d] c"]) (auto simp: fun_eq_iff Let_def)


lemma perturb_length: "length (perturb d ci cj c) = length c"
  unfolding perturb_fold by (rule fold_update2_length)


lemma sum_list_update_real:
  fixes xs :: "real list"
  shows "k < length xs \<Longrightarrow> sum_list (xs[k := v]) = sum_list xs + v - xs ! k"
proof (induction xs arbitrary: k)
  case Nil
  then show ?case by simp
next
  case (Cons a xs)
  then show ?case by (cases k) simp_all
qed

lemma split_one_bounds:
  assumes "split_one d ci cj h c = Inr (h2, c2)"
  shows "ci * d + d \<le> length c \<and> cj * d + d \<le> length c
         \<and> length h2 = length h \<and> length c2 = length c"
  using assms
  by (auto simp: split_one_def memcpy_def Let_def perturb_length split: if_splits)

lemma split_one_hist:
  assumes "split_one d ci cj h c = Inr (h2, c2)"
  shows "h2 = (h[ci := h ! cj / 2])[cj := (h[ci := h ! cj / 2]) ! cj - (h[ci := h ! cj / 2]) ! ci]"
  using assms by (auto simp: split_one_def Let_def split: sum.splits)

lemma split_one_sum:
  assumes s: "split_one d ci cj h c = Inr (h2, c2)"
    and z: "h ! ci = 0" and ci: "ci < length h" and cj: "cj < length h"
  shows "sum_list h2 = sum_list h"
proof (cases "ci = cj")
  case True
  then show ?thesis
    unfolding split_one_hist[OF s] using z ci by (simp add: sum_list_update_real)
next
  case False
  then show ?thesis
    unfolding split_one_hist[OF s] using z ci cj by (simp add: sum_list_update_real)
qed

lemma split_one_hist_nth:
  assumes s: "split_one d ci cj h c = Inr (h2, c2)"
    and ne: "ci \<noteq> cj" and ci: "ci < length h" and cj: "cj < length h"
  shows "h2 ! x = (if x = ci \<or> x = cj then h ! cj / 2 else h ! x)"
  unfolding split_one_hist[OF s] using ne ci cj by (auto simp: nth_list_update)


lemma split_loop_sum:
  "split_loop rng d k n cs (h, c, ns, t) = Some (Inr (h', c', ns', t')) \<Longrightarrow>
     sum_list h' = sum_list h \<and> length h' = length h"
proof (induction cs arbitrary: h c ns t)
  case Nil
  then show ?case by simp
next
  case (Cons ci rest)
  note run = Cons.prems
  have ci: "ci < length h" using run by (auto split: if_splits)
  show ?case
  proof (cases "h ! ci = 0")
    case False
    then have "split_loop rng d k n rest (h, c, ns, t) = Some (Inr (h', c', ns', t'))"
      using run ci by simp
    from Cons.IH[OF this] show ?thesis .
  next
    case True
    from run ci True obtain cj t1 where fd: "find_donor rng k n h 0 t = Some (Inr (cj, t1))"
      by (auto split: option.splits sum.splits)
    from run ci True fd obtain h2 c2 where so: "split_one d ci cj h c = Inr (h2, c2)"
      and rest: "split_loop rng d k n rest (h2, c2, ns + 1, t1) = Some (Inr (h', c', ns', t'))"
      by (auto split: sum.splits)
    have cj: "cj < length h" using find_donor_Some[OF fd] by simp
    have "sum_list h2 = sum_list h" using split_one_sum[OF so True ci cj] .
    moreover have "length h2 = length h" using split_one_bounds[OF so] by simp
    ultimately show ?thesis using Cons.IH[OF rest] by simp
  qed
qed


lemma split_clusters_example:
  "split_clusters E_rev 1 2 4 [4, 0] [1024, 0] = Some (Inr (1, [2, 2], [1023, 1025]))"
  by code_simp

lemma split_one_example:
  "split_one 1 1 0 [4, 0] [1024, 0] = Inr ([2, 2], [1023, 1025])"
  by code_simp





text \<open>
  Claim C9. Every call of \<^verbatim>\<open>split_clusters\<close> that returns leaves the sum of the
  histogram unchanged. In each repair (\<open>split_one\<close> with a donor other than the
  repaired slot) the population written to the repaired slot plus the reduced
  population of the donor is the donor's population before the split. So a
  histogram whose entries sum to the number \<open>n\<close> of assigned training vectors
  still sums to \<open>n\<close> after the repair.
\<close>

theorem split_clusters_preserves_total:
  assumes ret: "split_clusters E d k n hassign centroids = Some (Inr (nsplit, h', c'))"
  shows "sum_list h' = sum_list hassign
       \<and> (\<forall>ci cj h c h2 c2.
            split_one d ci cj h c = Inr (h2, c2) \<and> ci \<noteq> cj \<and> ci < length h \<and> cj < length h
              \<longrightarrow> h2 ! ci + h2 ! cj = h ! cj)
       \<and> (sum_list hassign = real n \<longrightarrow> sum_list h' = real n)"
proof -
  from ret obtain t' where
    run: "split_loop (rand_float E seed) d k n [0..<k] (hassign, centroids, 0, 0)
            = Some (Inr (h', c', nsplit, t'))"
    by (auto simp: split_clusters_def split: option.splits sum.splits)
  have s: "sum_list h' = sum_list hassign" using split_loop_sum[OF run] by simp
  have one: "h2 ! ci + h2 ! cj = h ! cj"
    if "split_one d ci cj h c = Inr (h2, c2)" "ci \<noteq> cj" "ci < length h" "cj < length h"
    for ci cj h c h2 c2
    using split_one_hist_nth[OF that, of ci] split_one_hist_nth[OF that, of cj] by simp
  show ?thesis using s one by auto
qed

theorem split_clusters_preserves_total_witness:
  "split_clusters E_rev 1 2 4 [4, 0] [1024, 0] = Some (Inr (1, [2, 2], [1023, 1025]))
   \<and> sum_list [2, 2 :: real] = sum_list [4, 0]
   \<and> [2, 2 :: real] ! 1 + [2, 2] ! 0 = [4, 0] ! 0
   \<and> sum_list [4, 0 :: real] = real 4
   \<and> sum_list [2, 2 :: real] = real 4"
proof -
  note w = split_clusters_preserves_total[OF split_clusters_example]
  have a: "sum_list [2, 2 :: real] = sum_list [4, 0]" using w by (rule conjunct1)
  have b: "[2, 2 :: real] ! 1 + [2, 2] ! 0 = [4, 0] ! 0"
    using w[THEN conjunct2, THEN conjunct1, rule_format, of 1 0 "[4, 0]" "[1024, 0]" "[2, 2]" "[1023, 1025]"]
      split_one_example by simp
  have p: "sum_list [4, 0 :: real] = real 4" by simp
  have c: "sum_list [2, 2 :: real] = real 4"
    using w[THEN conjunct2, THEN conjunct2, rule_format, OF p] .
  from split_clusters_example a b p c show ?thesis by blast
qed

section \<open>The orchestrator: the corner case\<close>

lemma subsample_count:
  "subsample_training_set E d k nx x = Inr (nx', x_new) \<Longrightarrow> nx' = k * max_points_per_centroid"
  by (auto simp: subsample_training_set_def Let_def split: sum.splits)

lemma train_on_not_corner:
  "nx \<noteq> 2 ^ pqBits meta \<Longrightarrow>
   train_on E meta nx x c lg = kmeans_iterations E meta nx x max_iterations 0 None c lg"
  by (simp add: train_on_def Let_def)

lemma pow2_pos: "0 < (2::nat) ^ b"
  by simp

text \<open>
  Claim C1, as stated, fails: with \<open>nx = k = 2\<close> the call returns failure, and the
  table holds the initializer's rows (here in reversed order), not a row-for-row
  copy of the training vectors.
\<close>

theorem pq_train_corner_case_counterexample:
  "pq_train E_rev TT_DEFAULT meta_1_2 2 [5, 7] [0, 0]
     = Some (Inr \<lparr>ok = False, table = [7, 5], stderr_log = []\<rparr>)"
  by code_simp

text \<open>
  Claim C1, amended. For every training call with \<open>nx = k\<close>, \<^verbatim>\<open>pq_train\<close> runs the
  configured initializer and then returns failure through the low-data guard
  (\<open>nx = k\<close> implies \<open>nx < k * 39\<close>, and the guard comes before the corner case),
  leaving the initializer's table in the output buffer. The copy of lines
  298-302 is never executed: wherever training goes on, \<open>nx \<noteq> k\<close> (after
  subsampling \<open>nx = k * 256\<close>, otherwise \<open>nx \<ge> k * 39\<close>), so \<^verbatim>\<open>pq_train\<close> equals the
  procedure without the corner case.
\<close>

theorem pq_train_corner_case_unreachable:
  "(slice_len = 2 ^ pqBits meta \<longrightarrow>
      pq_train E trainType meta slice_len slice centroids =
        (case init_centroids E trainType meta slice_len slice centroids of
           Inl e \<Rightarrow> Some (Inl e)
         | Inr c0 \<Rightarrow> Some (Inr \<lparr>ok = False, table = c0, stderr_log = []\<rparr>)))
   \<and> pq_train E trainType meta slice_len slice centroids =
        (case init_centroids E trainType meta slice_len slice centroids of
           Inl e \<Rightarrow> Some (Inl e)
         | Inr c0 \<Rightarrow>
             if slice_len > 2 ^ pqBits meta * max_points_per_centroid then
               (case subsample_training_set E (pqSubdim meta) (2 ^ pqBits meta) slice_len slice of
                  Inl e \<Rightarrow> Some (Inl e)
                | Inr (nx, x_new) \<Rightarrow>
                    kmeans_iterations E meta nx x_new max_iterations 0 None c0 [Subsample nx])
             else if slice_len < 2 ^ pqBits meta * min_points_per_centroid then
               Some (Inr \<lparr>ok = False, table = c0, stderr_log = []\<rparr>)
             else kmeans_iterations E meta slice_len slice max_iterations 0 None c0 [])"
proof (intro conjI impI)
  assume "slice_len = 2 ^ pqBits meta"
  then show "pq_train E trainType meta slice_len slice centroids =
        (case init_centroids E trainType meta slice_len slice centroids of
           Inl e \<Rightarrow> Some (Inl e)
         | Inr c0 \<Rightarrow> Some (Inr \<lparr>ok = False, table = c0, stderr_log = []\<rparr>))"
    by (simp add: pq_train_def Let_def max_points_per_centroid_def min_points_per_centroid_def
          split: sum.splits)
next
  let ?k = "2 ^ pqBits meta :: nat"
  have k: "0 < ?k" by simp
  have a: "train_on E meta nx x_new c0 [Subsample nx]
             = kmeans_iterations E meta nx x_new max_iterations 0 None c0 [Subsample nx]"
    if "subsample_training_set E (pqSubdim meta) ?k slice_len slice = Inr (nx, x_new)"
    for nx x_new c0
  proof -
    have "nx = ?k * max_points_per_centroid" using subsample_count[OF that] .
    then have "nx \<noteq> ?k" using k by (simp add: max_points_per_centroid_def)
    then show ?thesis by (rule train_on_not_corner)
  qed
  have b: "train_on E meta slice_len slice c0 []
             = kmeans_iterations E meta slice_len slice max_iterations 0 None c0 []"
    if "\<not> slice_len < ?k * min_points_per_centroid" for c0
  proof -
    have "slice_len \<noteq> ?k" using that k by (auto simp: min_points_per_centroid_def)
    then show ?thesis by (rule train_on_not_corner)
  qed
  show "pq_train E trainType meta slice_len slice centroids =
        (case init_centroids E trainType meta slice_len slice centroids of
           Inl e \<Rightarrow> Some (Inl e)
         | Inr c0 \<Rightarrow>
             if slice_len > ?k * max_points_per_centroid then
               (case subsample_training_set E (pqSubdim meta) ?k slice_len slice of
                  Inl e \<Rightarrow> Some (Inl e)
                | Inr (nx, x_new) \<Rightarrow>
                    kmeans_iterations E meta nx x_new max_iterations 0 None c0 [Subsample nx])
             else if slice_len < ?k * min_points_per_centroid then
               Some (Inr \<lparr>ok = False, table = c0, stderr_log = []\<rparr>)
             else kmeans_iterations E meta slice_len slice max_iterations 0 None c0 [])"
    using a b by (auto simp: pq_train_def Let_def split: sum.splits)
qed

theorem pq_train_corner_case_unreachable_witness:
  "(2::nat) = 2 ^ pqBits meta_1_2
   \<and> pq_train E_rev TT_DEFAULT meta_1_2 2 [5, 7] [0, 0] =
        (case init_centroids E_rev TT_DEFAULT meta_1_2 2 [5, 7] [0, 0] of
           Inl e \<Rightarrow> Some (Inl e)
         | Inr c0 \<Rightarrow> Some (Inr \<lparr>ok = False, table = c0, stderr_log = []\<rparr>))"
proof -
  have a: "(2::nat) = 2 ^ pqBits meta_1_2" by (simp add: meta_1_2_def)
  from pq_train_corner_case_unreachable[of 2 meta_1_2 E_rev TT_DEFAULT "[5, 7]" "[0, 0]",
      THEN conjunct1, rule_format, OF a] a
  show ?thesis by blast
qed

section \<open>Runs with one centroid in one dimension\<close>

lemma objective_Some: "objective (map Some vs) = Some (sum_list vs)"
proof -
  have "fold (\<lambda>v obj. ext_add obj v) (map Some vs) (Some a) = Some (a + sum_list vs)" for a
    by (induction vs arbitrary: a) (simp_all add: add.assoc)
  from this[of 0] show ?thesis by (simp add: objective_def)
qed

lemma row_1: "i < length x \<Longrightarrow> row (Suc 0) i x = [x ! i]"
  by (simp add: row_def take_Suc_conv_app_nth)

lemma nearest_1_1:
  assumes "pqSubdim meta = 1" "pqBits meta = 0"
  shows "nearest E meta [v] xi = Inr (Some (hnsw_dist_func E (dist_func meta) xi [v] (Suc 0)), 0)"
  using assms by (simp add: nearest_def Let_def less_min_def row_def)

lemma calculate_distances_1_1:
  assumes m: "pqSubdim meta = 1" "pqBits meta = 0" and l: "length x = nx"
  shows "calculate_distances E meta [v] nx x =
           Inr (map (\<lambda>u. Some (hnsw_dist_func E (dist_func meta) [u] [v] (Suc 0))) x, replicate nx 0)"
proof -
  let ?body = "\<lambda>i (dis, assign).
              if \<not> i * Suc 0 + Suc 0 \<le> length x then Inl OutOfBounds
              else case nearest E meta [v] (row (Suc 0) i x) of
                     Inl e \<Rightarrow> Inl e
                   | Inr (min_dist, min_idx) \<Rightarrow> Inr (dis @ [min_dist], assign @ [min_idx])"
  let ?f = "\<lambda>u. Some (hnsw_dist_func E (dist_func meta) [u] [v] (Suc 0))"
  let ?I = "\<lambda>(j::nat) (s :: dist_t option list \<times> idx_t list).
              s = (map ?f (take j x), replicate j 0)"
  have "\<exists>s. for_each [0..<nx] ?body ([], []) = Inr s \<and> ?I nx s"
  proof (rule for_each_invariant[where I = ?I and body = ?body])
    show "?I 0 ([], [])" by simp
  next
    fix i s assume i: "i < nx" and I: "?I i s"
    have ix: "i < length x" using i l by simp
    have "?body i s = Inr (map ?f (take i x) @ [?f (x ! i)], replicate i 0 @ [0])"
      using I ix by (simp add: nearest_1_1[OF m] row_1)
    moreover have "map ?f (take i x) @ [?f (x ! i)] = map ?f (take (Suc i) x)"
      using ix by (simp add: take_Suc_conv_app_nth)
    moreover have "replicate i (0::nat) @ [0] = replicate (Suc i) 0"
      by (simp add: replicate_append_same)
    ultimately show "\<exists>s'. ?body i s = Inr s' \<and> ?I (Suc i) s'" by simp
  qed
  then show ?thesis using m l by (simp add: calculate_distances_def Let_def)
qed

lemma split_clusters_1:
  "h \<noteq> 0 \<Longrightarrow> split_clusters E d (Suc 0) n [h] c = Some (Inr (0, [h], c))"
  by (simp add: split_clusters_def)

lemma kmeans_step_1_1:
  assumes m: "pqSubdim meta = 1" "pqBits meta = 0" and l: "length x = nx" and n: "0 < nx"
  shows "kmeans_iterations E meta nx x (Suc m) i prev [v] lg =
           (if converged prev (Some (\<Sum>u\<leftarrow>x. hnsw_dist_func E (dist_func meta) [u] [v] (Suc 0)))
            then Some (Inr \<lparr>ok = True, table = [v],
                    stderr_log = lg @ [Iteration i
                      (Some (\<Sum>u\<leftarrow>x. hnsw_dist_func E (dist_func meta) [u] [v] (Suc 0)))]\<rparr>)
            else kmeans_iterations E meta nx x m (i + 1)
                   (Some (\<Sum>u\<leftarrow>x. hnsw_dist_func E (dist_func meta) [u] [v] (Suc 0)))
                   [fl32 (float_sum x * fl32 (1 / real (min nx float_count_max)))]
                   (lg @ [Iteration i
                      (Some (\<Sum>u\<leftarrow>x. hnsw_dist_func E (dist_func meta) [u] [v] (Suc 0)))]))"
proof -
  have o: "objective (map (\<lambda>u. Some (hnsw_dist_func E (dist_func meta) [u] [v] (Suc 0))) x)
             = Some (\<Sum>u\<leftarrow>x. hnsw_dist_func E (dist_func meta) [u] [v] (Suc 0))"
    using objective_Some[of "map (\<lambda>u. hnsw_dist_func E (dist_func meta) [u] [v] (Suc 0)) x"]
    by (simp add: comp_def)
  have nz: "real (min nx float_count_max) \<noteq> 0" using n by (simp add: float_count_max_def)
  show ?thesis
    using m nz
    by (simp add: calculate_distances_1_1[OF m l] o compute_centroids_one_row[OF l n]
          split_clusters_1 Let_def)
qed

lemma kmeans_step_1_1_pos:
  assumes m: "pqSubdim meta = 1" "pqBits meta = 0" and l: "length x = nx" and n: "0 < nx"
    and pos: "0 < m"
  shows "kmeans_iterations E meta nx x m i prev [v] lg =
           (if converged prev (Some (\<Sum>u\<leftarrow>x. hnsw_dist_func E (dist_func meta) [u] [v] (Suc 0)))
            then Some (Inr \<lparr>ok = True, table = [v],
                    stderr_log = lg @ [Iteration i
                      (Some (\<Sum>u\<leftarrow>x. hnsw_dist_func E (dist_func meta) [u] [v] (Suc 0)))]\<rparr>)
            else kmeans_iterations E meta nx x (m - 1) (i + 1)
                   (Some (\<Sum>u\<leftarrow>x. hnsw_dist_func E (dist_func meta) [u] [v] (Suc 0)))
                   [fl32 (float_sum x * fl32 (1 / real (min nx float_count_max)))]
                   (lg @ [Iteration i
                      (Some (\<Sum>u\<leftarrow>x. hnsw_dist_func E (dist_func meta) [u] [v] (Suc 0)))]))"
proof -
  from pos obtain m' where "m = Suc m'" by (cases m) simp_all
  then show ?thesis using kmeans_step_1_1[OF m l n, of E m' i prev v lg] by simp
qed

section \<open>The orchestrator: the order of the stages\<close>

lemma ex_init_full:
  "init_centroids E_rev TT_DEFAULT meta_1_1 257 (replicate 256 0 @ [256]) [0] = Inr [256]"
  by (simp add: init_centroids_def init_random_def meta_1_1_def E_rev_def perm_at_def
        memcpy_def rev_nth Let_def)

lemma ex_init_sub:
  "init_centroids E_rev TT_DEFAULT meta_1_1 256 (256 # replicate 255 0) [0] = Inr [0]"
  by (simp add: init_centroids_def init_random_def meta_1_1_def E_rev_def perm_at_def
        memcpy_def rev_nth Let_def drop_Cons')

lemma ex_subsample:
  "subsample_training_set E_rev 1 1 257 (replicate 256 0 @ [256]) = Inr (256, 256 # replicate 255 0)"
proof -
  let ?X = "replicate 256 (0::real) @ [256]"
  have a1: "1 * max_points_per_centroid < (257::nat)" by (simp add: max_points_per_centroid_def)
  have a2: "length ?X = 257 * 1" by simp
  have a3: "distinct (rand_perm E_rev 257 seed)" by (simp add: E_rev_def)
  have a4: "set (rand_perm E_rev 257 seed) = {0..<257}" by (simp add: E_rev_def)
  from subsample_rows[OF a1 a2 a3 a4] obtain x_new where
    r: "subsample_training_set E_rev 1 1 257 ?X = Inr (256, x_new)"
    and l: "length x_new = 256"
    and rows: "\<forall>i<256. row 1 i x_new = row 1 (rand_perm E_rev 257 seed ! i) ?X"
    by (auto simp: max_points_per_centroid_def)
  have "x_new = 256 # replicate 255 0"
  proof (rule nth_equalityI)
    show "length x_new = length (256 # replicate 255 (0::real))" using l by simp
  next
    fix i assume "i < length x_new"
    then have i: "i < 256" using l by simp
    have p: "rand_perm E_rev 257 seed ! i = 256 - i"
      using i by (simp add: E_rev_def rev_nth)
    have "row 1 i x_new = [x_new ! i]" using i l by (simp add: row_1)
    moreover have "row 1 (256 - i) ?X = [?X ! (256 - i)]" by (simp add: row_1)
    ultimately have "x_new ! i = ?X ! (256 - i)" using rows i p by simp
    also have "\<dots> = (256 # replicate 255 0) ! i"
      using i by (cases i) (simp_all add: nth_append)
    finally show "x_new ! i = (256 # replicate 255 0) ! i" .
  qed
  with r show ?thesis by simp
qed

lemma ex_run_code_order:
  "train_on E_rev meta_1_1 256 (256 # replicate 255 0) [256] [Subsample 256]
     = Some (Inr \<lparr>ok = True, table = [1],
          stderr_log = [Subsample 256, Iteration 0 (Some 65280), Iteration 1 (Some 510),
                        Iteration 2 (Some 510)]\<rparr>)"
proof -
  have m: "pqSubdim meta_1_1 = 1" "pqBits meta_1_1 = 0" by (simp_all add: meta_1_1_def)
  have l: "length (256 # replicate 255 (0::real)) = 256" by simp
  have n: "0 < (256::nat)" by simp
  have d: "hnsw_dist_func E_rev f [u] [v] (Suc 0) = \<bar>u - v\<bar>" for f u v
    by (simp add: E_rev_def)
  have c: "fl32 (float_sum (256 # replicate 255 0) * fl32 (1 / real (min 256 float_count_max))) = 1"
  proof -
    have "float_sum (256 # replicate 255 0) = 256"
      by (simp only: float_sum_Cons) (simp add: fl32_numeral float_fold_zeros)
    moreover have "fl32 (256 * fl32 (1 / 256)) = 1" by (simp add: fl32_eval)
    ultimately show ?thesis by (simp add: float_count_max_def)
  qed
  show ?thesis
    unfolding train_on_def max_iterations_def
    by (simp add: m kmeans_step_1_1_pos[OF m l n] c d min_improvement_def sum_list_replicate)
qed

lemma ex_run_spec_order:
  "train_on E_rev meta_1_1 256 (256 # replicate 255 0) [0] [Subsample 256]
     = Some (Inr \<lparr>ok = True, table = [1],
          stderr_log = [Subsample 256, Iteration 0 (Some 256), Iteration 1 (Some 510)]\<rparr>)"
proof -
  have m: "pqSubdim meta_1_1 = 1" "pqBits meta_1_1 = 0" by (simp_all add: meta_1_1_def)
  have l: "length (256 # replicate 255 (0::real)) = 256" by simp
  have n: "0 < (256::nat)" by simp
  have d: "hnsw_dist_func E_rev f [u] [v] (Suc 0) = \<bar>u - v\<bar>" for f u v
    by (simp add: E_rev_def)
  have c: "fl32 (float_sum (256 # replicate 255 0) * fl32 (1 / real (min 256 float_count_max))) = 1"
  proof -
    have "float_sum (256 # replicate 255 0) = 256"
      by (simp only: float_sum_Cons) (simp add: fl32_numeral float_fold_zeros)
    moreover have "fl32 (256 * fl32 (1 / 256)) = 1" by (simp add: fl32_eval)
    ultimately show ?thesis by (simp add: float_count_max_def)
  qed
  show ?thesis
    unfolding train_on_def max_iterations_def
    by (simp add: m kmeans_step_1_1_pos[OF m l n] c d min_improvement_def sum_list_replicate)
qed

text \<open>
  Claim C2, as stated, fails. On 257 one-dimensional rows with one centroid the
  default initializer picks row 256 of the caller's slice (value 256), a row
  that the subsampler keeps as row 0 of the training set; the first objective
  logged is 65280. Had the stages run in the order of the claim
  (\<open>pq_train_spec_order\<close>), the initializer would have drawn from the 256
  subsampled rows: the initial centroid would be row 255 of the subsampled set
  (value 0) and the log would start with 256.
\<close>

theorem pq_train_stage_order_counterexample:
  "pq_train E_rev TT_DEFAULT meta_1_1 257 (replicate 256 0 @ [256]) [0]
     = Some (Inr \<lparr>ok = True, table = [1],
          stderr_log = [Subsample 256, Iteration 0 (Some 65280), Iteration 1 (Some 510),
                        Iteration 2 (Some 510)]\<rparr>)
   \<and> pq_train_spec_order E_rev TT_DEFAULT meta_1_1 257 (replicate 256 0 @ [256]) [0]
     = Some (Inr \<lparr>ok = True, table = [1],
          stderr_log = [Subsample 256, Iteration 0 (Some 256), Iteration 1 (Some 510)]\<rparr>)"
proof
  have mv: "pqSubdim meta_1_1 = 1" "pqBits meta_1_1 = 0" by (simp_all add: meta_1_1_def)
  show "pq_train E_rev TT_DEFAULT meta_1_1 257 (replicate 256 0 @ [256]) [0]
     = Some (Inr \<lparr>ok = True, table = [1],
          stderr_log = [Subsample 256, Iteration 0 (Some 65280), Iteration 1 (Some 510),
                        Iteration 2 (Some 510)]\<rparr>)"
    unfolding pq_train_def
    by (simp add: ex_init_full mv max_points_per_centroid_def ex_subsample[unfolded One_nat_def] ex_run_code_order)
  show "pq_train_spec_order E_rev TT_DEFAULT meta_1_1 257 (replicate 256 0 @ [256]) [0]
     = Some (Inr \<lparr>ok = True, table = [1],
          stderr_log = [Subsample 256, Iteration 0 (Some 256), Iteration 1 (Some 510)]\<rparr>)"
    unfolding pq_train_spec_order_def
    by (simp add: mv max_points_per_centroid_def ex_subsample[unfolded One_nat_def] ex_init_sub ex_run_spec_order)
qed

lemma init_random_rows:
  assumes k: "k \<le> nx" and x: "length x = nx * d"
    and perm: "distinct (rand_perm E nx (seed + 1))" "set (rand_perm E nx (seed + 1)) = {0..<nx}"
    and c: "length centroids = k * d"
  shows "\<exists>c0. init_random E d k nx x centroids = Inr c0 \<and> length c0 = k * d
           \<and> (\<forall>i<k. row d i c0 = row d (rand_perm E nx (seed + 1) ! i) x)"
proof -
  let ?perm = "rand_perm E nx (seed + 1)"
  have len: "length ?perm = nx" using perm by (rule perm_contract_length)
  have rng: "\<forall>i<nx. ?perm ! i < nx"
    using perm(2) len nth_mem[of _ ?perm] by auto
  then have rng': "\<forall>i<k. ?perm ! i < nx" using k by simp
  from copy_rows_loop[OF len rng' k x c]
  obtain c0 where r: "for_each [0..<k]
            (\<lambda>i x_new. case perm_at ?perm nx i of
                           Inl e \<Rightarrow> Inl e
                         | Inr p \<Rightarrow> memcpy x_new (i * d) x (p * d) d) centroids = Inr c0"
     and l: "length c0 = k * d"
     and e: "\<forall>i<k. \<forall>j<d. c0 ! (i * d + j) = x ! (?perm ! i * d + j)"
    by auto
  have rows: "\<forall>i<k. row d i c0 = row d (?perm ! i) x"
  proof (intro allI impI)
    fix i assume i: "i < k"
    show "row d i c0 = row d (?perm ! i) x"
    proof (rule row_eqI)
      show "i * d + d \<le> length c0" using row_bound[OF i] l by simp
      show "?perm ! i * d + d \<le> length x" using rng' i x row_bound by simp
      show "\<And>j. j < d \<Longrightarrow> c0 ! (i * d + j) = x ! (?perm ! i * d + j)" using e i by simp
    qed
  qed
  have "init_random E d k nx x centroids = Inr c0"
    using r by (simp add: init_random_def Let_def)
  with l rows show ?thesis by blast
qed

text \<open>
  Claim C2, amended. In every training call with more than \<open>k * 256\<close> rows the
  orchestrator first initializes the centroid table via the configured strategy
  on the caller's full slice (all \<open>slice_len\<close> rows), then subsamples the
  training set, then runs the iteration loop on the subsampled set, starting
  from that table. So the initializers operate on the full training set: with
  the default strategy, initial centroid \<open>i\<close> is row \<open>perm[i]\<close> of the caller's
  slice, for the permutation of \<open>[0, slice_len)\<close> seeded with \<open>seed + 1\<close>.
\<close>

theorem pq_train_initializes_before_subsampling:
  assumes big: "2 ^ pqBits meta * max_points_per_centroid < slice_len"
    and x: "length slice = slice_len * pqSubdim meta"
    and perm: "distinct (rand_perm E slice_len seed)"
              "set (rand_perm E slice_len seed) = {0..<slice_len}"
    and perm1: "distinct (rand_perm E slice_len (seed + 1))"
               "set (rand_perm E slice_len (seed + 1)) = {0..<slice_len}"
    and c: "length centroids = 2 ^ pqBits meta * pqSubdim meta"
  shows "\<exists>x_new c0.
           subsample_training_set E (pqSubdim meta) (2 ^ pqBits meta) slice_len slice
             = Inr (2 ^ pqBits meta * max_points_per_centroid, x_new)
         \<and> (\<forall>trainType.
               pq_train E trainType meta slice_len slice centroids =
                 (case init_centroids E trainType meta slice_len slice centroids of
                    Inl e \<Rightarrow> Some (Inl e)
                  | Inr c0 \<Rightarrow>
                      kmeans_iterations E meta (2 ^ pqBits meta * max_points_per_centroid) x_new
                        max_iterations 0 None c0
                        [Subsample (2 ^ pqBits meta * max_points_per_centroid)]))
         \<and> init_centroids E TT_DEFAULT meta slice_len slice centroids = Inr c0
         \<and> (\<forall>i<2 ^ pqBits meta.
               row (pqSubdim meta) i c0
                 = row (pqSubdim meta) (rand_perm E slice_len (seed + 1) ! i) slice)"
proof -
  let ?k = "2 ^ pqBits meta :: nat" and ?d = "pqSubdim meta"
  from subsample_rows[OF big x perm] obtain x_new where
    r: "subsample_training_set E ?d ?k slice_len slice = Inr (?k * max_points_per_centroid, x_new)"
    by blast
  have ne: "?k * max_points_per_centroid \<noteq> ?k" by (simp add: max_points_per_centroid_def)
  have run: "pq_train E trainType meta slice_len slice centroids =
                 (case init_centroids E trainType meta slice_len slice centroids of
                    Inl e \<Rightarrow> Some (Inl e)
                  | Inr c0 \<Rightarrow>
                      kmeans_iterations E meta (?k * max_points_per_centroid) x_new
                        max_iterations 0 None c0
                        [Subsample (?k * max_points_per_centroid)])" for trainType
    using big r train_on_not_corner[OF ne]
    by (simp add: pq_train_def Let_def split: sum.splits)
  have kle: "?k \<le> slice_len"
  proof -
    have "?k * 256 < slice_len" using big by (simp add: max_points_per_centroid_def)
    then show ?thesis by linarith
  qed
  from init_random_rows[OF kle x perm1 c] obtain c0 where
    i: "init_random E ?d ?k slice_len slice centroids = Inr c0"
    and rows: "\<forall>i<?k. row ?d i c0 = row ?d (rand_perm E slice_len (seed + 1) ! i) slice"
    by blast
  have "init_centroids E TT_DEFAULT meta slice_len slice centroids = Inr c0"
    using i by (simp add: init_centroids_def)
  with r run rows show ?thesis by blast
qed

theorem pq_train_initializes_before_subsampling_witness:
  "\<exists>x_new c0.
      subsample_training_set E_rev 1 1 257 (replicate 256 0 @ [256]) = Inr (256, x_new)
    \<and> init_centroids E_rev TT_DEFAULT meta_1_1 257 (replicate 256 0 @ [256]) [0] = Inr c0
    \<and> row 1 0 c0 = row 1 256 (replicate 256 0 @ [256])
    \<and> pq_train E_rev TT_DEFAULT meta_1_1 257 (replicate 256 0 @ [256]) [0]
        = kmeans_iterations E_rev meta_1_1 256 x_new max_iterations 0 None c0 [Subsample 256]"
proof -
  let ?X = "replicate 256 (0::real) @ [256]"
  have a1: "2 ^ pqBits meta_1_1 * max_points_per_centroid < (257::nat)"
    by (simp add: meta_1_1_def max_points_per_centroid_def)
  have a2: "length ?X = 257 * pqSubdim meta_1_1" by (simp add: meta_1_1_def)
  have a3: "distinct (rand_perm E_rev 257 seed)" by (simp add: E_rev_def)
  have a4: "set (rand_perm E_rev 257 seed) = {0..<257}" by (simp add: E_rev_def)
  have a5: "distinct (rand_perm E_rev 257 (seed + 1))" by (simp add: E_rev_def)
  have a6: "set (rand_perm E_rev 257 (seed + 1)) = {0..<257}" by (simp add: E_rev_def)
  have a7: "length [0::real] = 2 ^ pqBits meta_1_1 * pqSubdim meta_1_1" by (simp add: meta_1_1_def)
  have p0: "rand_perm E_rev 257 (seed + 1) ! 0 = 256" by (simp add: E_rev_def rev_nth)
  from pq_train_initializes_before_subsampling[OF a1 a2 a3 a4 a5 a6 a7]
  obtain x_new c0 where
    s: "subsample_training_set E_rev (pqSubdim meta_1_1) (2 ^ pqBits meta_1_1) 257 ?X
             = Inr (2 ^ pqBits meta_1_1 * max_points_per_centroid, x_new)"
    and run: "\<forall>trainType.
               pq_train E_rev trainType meta_1_1 257 ?X [0] =
                 (case init_centroids E_rev trainType meta_1_1 257 ?X [0] of
                    Inl e \<Rightarrow> Some (Inl e)
                  | Inr c0 \<Rightarrow>
                      kmeans_iterations E_rev meta_1_1 (2 ^ pqBits meta_1_1 * max_points_per_centroid) x_new
                        max_iterations 0 None c0
                        [Subsample (2 ^ pqBits meta_1_1 * max_points_per_centroid)])"
    and i: "init_centroids E_rev TT_DEFAULT meta_1_1 257 ?X [0] = Inr c0"
    and rows: "\<forall>i<2 ^ pqBits meta_1_1.
               row (pqSubdim meta_1_1) i c0
                 = row (pqSubdim meta_1_1) (rand_perm E_rev 257 (seed + 1) ! i) ?X"
    by blast
  have v: "pqSubdim meta_1_1 = 1" "(2::nat) ^ pqBits meta_1_1 * max_points_per_centroid = 256"
    "(2::nat) ^ pqBits meta_1_1 = 1"
    by (simp_all add: meta_1_1_def max_points_per_centroid_def)
  have r0: "row 1 0 c0 = row 1 256 ?X" using rows[rule_format, of 0] p0 v by simp
  have e: "pq_train E_rev TT_DEFAULT meta_1_1 257 ?X [0]
        = kmeans_iterations E_rev meta_1_1 256 x_new max_iterations 0 None c0 [Subsample 256]"
    using run[rule_format, of TT_DEFAULT] i v by simp
  from s i r0 e v show ?thesis by auto
qed

section \<open>The orchestrator: the objective\<close>

lemma objectives_append: "objectives (lg @ lg') = objectives lg @ objectives lg'"
  by (induction lg rule: objectives.induct) simp_all

lemma continues_Cons:
  "\<not> converged prev obj \<Longrightarrow> continues obj os \<Longrightarrow> continues prev (obj # os)"
  by (cases os) simp_all

lemma kmeans_iterations_log:
  "kmeans_iterations E meta nx x m i prev c lg = Some (Inr r) \<Longrightarrow>
     ok r \<and> (\<exists>os. objectives (stderr_log r) = objectives lg @ os
                 \<and> length os \<le> m \<and> continues prev os)"
proof (induction m arbitrary: i prev c lg)
  case 0
  then show ?case by auto
next
  case (Suc m)
  from Suc.prems obtain dis assign where
    cd: "calculate_distances E meta c nx x = Inr (dis, assign)"
    by (auto split: sum.splits)
  let ?obj = "objective dis"
  let ?lg = "lg @ [Iteration i ?obj]"
  show ?case
  proof (cases "converged prev ?obj")
    case True
    then have "r = \<lparr>ok = True, table = c, stderr_log = ?lg\<rparr>"
      using Suc.prems cd by (simp add: Let_def)
    then have "ok r" and "objectives (stderr_log r) = objectives lg @ [?obj]"
      by (simp_all add: objectives_append)
    moreover have "continues prev [?obj]" by simp
    ultimately show ?thesis by (intro conjI exI[of _ "[?obj]"]) simp_all
  next
    case False
    with Suc.prems cd obtain c2 where
      rec: "kmeans_iterations E meta nx x m (i + 1) ?obj c2 ?lg = Some (Inr r)"
      by (auto simp: Let_def split: sum.splits option.splits)
    from Suc.IH[OF rec] obtain os where
      okr: "ok r" and o: "objectives (stderr_log r) = objectives ?lg @ os"
      and l: "length os \<le> m" and ct: "continues ?obj os"
      by blast
    have "objectives (stderr_log r) = objectives lg @ (?obj # os)"
      using o by (simp add: objectives_append)
    moreover have "length (?obj # os) \<le> Suc m" using l by simp
    moreover have "continues prev (?obj # os)" using False ct by (rule continues_Cons)
    ultimately show ?thesis using okr by blast
  qed
qed

lemma train_on_log:
  assumes "train_on E meta nx x c lg = Some (Inr r)"
  shows "ok r \<and> (\<exists>os. objectives (stderr_log r) = objectives lg @ os
                 \<and> length os \<le> max_iterations \<and> continues None os)"
proof (cases "nx = 2 ^ pqBits meta")
  case True
  then have "stderr_log r = lg \<and> ok r"
    using assms by (auto simp: train_on_def Let_def split: sum.splits)
  then show ?thesis by (intro conjI exI[of _ "[]"]) simp_all
next
  case False
  then have "kmeans_iterations E meta nx x max_iterations 0 None c lg = Some (Inr r)"
    using assms by (simp add: train_on_def Let_def)
  from kmeans_iterations_log[OF this] show ?thesis .
qed

lemma pq_train_log:
  assumes "pq_train E trainType meta slice_len slice centroids = Some (Inr r)"
  shows "(ok r \<longleftrightarrow> \<not> slice_len < 2 ^ pqBits meta * min_points_per_centroid)
       \<and> (\<exists>os. objectives (stderr_log r) = os
                 \<and> length os \<le> max_iterations \<and> continues None os)"
proof -
  let ?k = "2 ^ pqBits meta :: nat"
  from assms obtain c0 where
    i: "init_centroids E trainType meta slice_len slice centroids = Inr c0"
    by (auto simp: pq_train_def Let_def split: sum.splits)
  consider (big) "slice_len > ?k * max_points_per_centroid"
    | (low) "\<not> slice_len > ?k * max_points_per_centroid" "slice_len < ?k * min_points_per_centroid"
    | (mid) "\<not> slice_len > ?k * max_points_per_centroid" "\<not> slice_len < ?k * min_points_per_centroid"
    by blast
  then show ?thesis
  proof cases
    case big
    with assms i obtain nx x_new where
      t: "train_on E meta nx x_new c0 [Subsample nx] = Some (Inr r)"
      by (auto simp: pq_train_def Let_def split: sum.splits)
    have "\<not> slice_len < ?k * min_points_per_centroid"
      using big by (simp add: max_points_per_centroid_def min_points_per_centroid_def)
    with train_on_log[OF t] show ?thesis by simp
  next
    case low
    with assms i have "r = \<lparr>ok = False, table = c0, stderr_log = []\<rparr>"
      by (simp add: pq_train_def Let_def)
    with low show ?thesis by simp
  next
    case mid
    with assms i have t: "train_on E meta slice_len slice c0 [] = Some (Inr r)"
      by (simp add: pq_train_def Let_def)
    with train_on_log[OF t] mid show ?thesis by simp
  qed
qed

lemma continues_nth:
  "continues prev os \<Longrightarrow> Suc (Suc j) < length os \<Longrightarrow> \<not> converged (os ! j) (os ! Suc j)"
proof (induction prev os arbitrary: j rule: continues.induct)
  case (1 prev)
  then show ?case by simp
next
  case (2 prev obj)
  then show ?case by simp
next
  case (3 prev obj obj' os)
  show ?case
  proof (cases j)
    case 0
    then obtain obj'' os' where "os = obj'' # os'" using 3(3) by (cases os) simp_all
    then show ?thesis using 3(2) 0 by simp
  next
    case (Suc j')
    then show ?thesis using 3 by simp
  qed
qed

lemma not_converged_le:
  assumes "\<not> converged (Some p) oq" "0 \<le> p"
  shows "\<exists>q. oq = Some q \<and> q \<le> p \<and> (0 < p \<longrightarrow> q \<le> p * (1 - min_improvement))"
proof (cases oq)
  case None
  then show ?thesis using assms by simp
next
  case (Some q)
  show ?thesis
  proof (cases "p = 0")
    case True
    then show ?thesis using assms Some by simp
  next
    case False
    then have p: "0 < p" using assms(2) by simp
    have "\<not> (p - q) / p < min_improvement" using assms(1) Some False by simp
    then have "min_improvement * p \<le> p - q" using p by (simp add: pos_le_divide_eq not_less)
    then have a: "q \<le> p * (1 - min_improvement)" by (simp add: algebra_simps)
    have "p * (1 - min_improvement) \<le> p" using p by (simp add: min_improvement_def)
    with a show ?thesis using Some by auto
  qed
qed

text \<open>
  Claim C7, amended. In one training call at most 25 objectives are logged.
  Whenever the loop goes on after an iteration (its objective is not the last
  one logged) and the objective of the iteration before is not negative, the
  objective has not increased: it is at most the previous one, and at most the
  previous one reduced by the fraction \<open>0.0001\<close> when that is positive. The last
  objective logged, the one at which the loop ends, may exceed its predecessor;
  the centroids returned are then those of the pass that made it worse.
\<close>

theorem pq_train_objective_decreases_until_last:
  assumes "pq_train E trainType meta slice_len slice centroids = Some (Inr r)"
  shows "length (objectives (stderr_log r)) \<le> max_iterations
       \<and> (\<forall>j p. Suc (Suc j) < length (objectives (stderr_log r))
                 \<and> objectives (stderr_log r) ! j = Some p \<and> 0 \<le> p
             \<longrightarrow> (\<exists>q. objectives (stderr_log r) ! Suc j = Some q \<and> q \<le> p
                      \<and> (0 < p \<longrightarrow> q \<le> p * (1 - min_improvement))))"
proof -
  from pq_train_log[OF assms] have l: "length (objectives (stderr_log r)) \<le> max_iterations"
    and ct: "continues None (objectives (stderr_log r))"
    by auto
  have "\<exists>q. objectives (stderr_log r) ! Suc j = Some q \<and> q \<le> p
                      \<and> (0 < p \<longrightarrow> q \<le> p * (1 - min_improvement))"
    if "Suc (Suc j) < length (objectives (stderr_log r))"
       "objectives (stderr_log r) ! j = Some p" "0 \<le> p" for j p
    using continues_nth[OF ct that(1)] that(2,3) not_converged_le by simp
  with l show ?thesis by blast
qed

lemma one_outlier_mean:
  "fl32 (float_sum (39 # replicate 38 0) * fl32 (1 / real (min 39 float_count_max))) = 1"
  "fl32 (float_sum (replicate 38 0 @ [39]) * fl32 (1 / real (min 39 float_count_max))) = 1"
proof -
  have a: "float_sum (39 # replicate 38 0) = 39"
    by (simp only: float_sum_Cons) (simp add: fl32_numeral float_fold_zeros)
  have b: "float_sum (replicate 38 0 @ [39]) = 39"
    by (simp only: float_sum_snoc float_sum_zeros) (simp add: fl32_numeral)
  have p: "fl32 (39 * fl32 (1 / 39)) = 1" by (simp add: fl32_eval)
  show "fl32 (float_sum (39 # replicate 38 0) * fl32 (1 / real (min 39 float_count_max))) = 1"
    using a p by (simp add: float_count_max_def)
  show "fl32 (float_sum (replicate 38 0 @ [39]) * fl32 (1 / real (min 39 float_count_max))) = 1"
    using b p by (simp add: float_count_max_def)
qed

text \<open>
  Claim C7, as stated, fails. With the Manhattan distance, one centroid and 39
  one-dimensional vectors (one at 39, the others at 0), the initial centroid 0
  gives the objective 39; the recomputed centroid, the mean 1, gives 76. The
  objective has increased from one iteration to the next; the loop ends there
  and returns the mean.
\<close>

theorem pq_train_objective_counterexample:
  "pq_train E_rev TT_DEFAULT meta_1_1 39 (39 # replicate 38 0) [0]
     = Some (Inr \<lparr>ok = True, table = [1],
          stderr_log = [Iteration 0 (Some 39), Iteration 1 (Some 76)]\<rparr>)"
proof -
  have m: "pqSubdim meta_1_1 = 1" "pqBits meta_1_1 = 0" by (simp_all add: meta_1_1_def)
  have l: "length (39 # replicate 38 (0::real)) = 39" by simp
  have n: "0 < (39::nat)" by simp
  have d: "hnsw_dist_func E_rev f [u] [v] (Suc 0) = \<bar>u - v\<bar>" for f u v
    by (simp add: E_rev_def)
  have i: "init_centroids E_rev TT_DEFAULT meta_1_1 39 (39 # replicate 38 0) [0] = Inr [0]"
    by (simp add: init_centroids_def init_random_def meta_1_1_def E_rev_def perm_at_def
          memcpy_def rev_nth Let_def drop_Cons')
  have c: "fl32 (float_sum (39 # replicate 38 0) * fl32 (1 / real (min 39 float_count_max))) = 1"
    using one_outlier_mean(1) .
  have t: "train_on E_rev meta_1_1 39 (39 # replicate 38 0) [0] []
     = Some (Inr \<lparr>ok = True, table = [1],
          stderr_log = [Iteration 0 (Some 39), Iteration 1 (Some 76)]\<rparr>)"
    unfolding train_on_def max_iterations_def
    by (simp add: m kmeans_step_1_1_pos[OF m l n] c d min_improvement_def sum_list_replicate)
  show ?thesis
    unfolding pq_train_def
    by (simp add: i m t max_points_per_centroid_def min_points_per_centroid_def)
qed

lemma ex_decreasing_run:
  "pq_train E_rev TT_DEFAULT meta_1_1 39 (replicate 38 0 @ [39]) [0]
     = Some (Inr \<lparr>ok = True, table = [1],
          stderr_log = [Iteration 0 (Some 1482), Iteration 1 (Some 76), Iteration 2 (Some 76)]\<rparr>)"
proof -
  have m: "pqSubdim meta_1_1 = 1" "pqBits meta_1_1 = 0" by (simp_all add: meta_1_1_def)
  have l: "length (replicate 38 (0::real) @ [39]) = 39" by simp
  have n: "0 < (39::nat)" by simp
  have d: "hnsw_dist_func E_rev f [u] [v] (Suc 0) = \<bar>u - v\<bar>" for f u v
    by (simp add: E_rev_def)
  have i: "init_centroids E_rev TT_DEFAULT meta_1_1 39 (replicate 38 0 @ [39]) [0] = Inr [39]"
    by (simp add: init_centroids_def init_random_def meta_1_1_def E_rev_def perm_at_def
          memcpy_def rev_nth Let_def)
  have c: "fl32 (float_sum (replicate 38 0 @ [39]) * fl32 (1 / real (min 39 float_count_max))) = 1"
    using one_outlier_mean(2) .
  have t: "train_on E_rev meta_1_1 39 (replicate 38 0 @ [39]) [39] []
     = Some (Inr \<lparr>ok = True, table = [1],
          stderr_log = [Iteration 0 (Some 1482), Iteration 1 (Some 76), Iteration 2 (Some 76)]\<rparr>)"
    unfolding train_on_def max_iterations_def
    by (simp add: m kmeans_step_1_1_pos[OF m l n] c d min_improvement_def sum_list_replicate)
  show ?thesis
    unfolding pq_train_def
    by (simp add: i m t max_points_per_centroid_def min_points_per_centroid_def)
qed

theorem pq_train_objective_decreases_until_last_witness:
  "pq_train E_rev TT_DEFAULT meta_1_1 39 (replicate 38 0 @ [39]) [0]
     = Some (Inr \<lparr>ok = True, table = [1],
          stderr_log = [Iteration 0 (Some 1482), Iteration 1 (Some 76), Iteration 2 (Some 76)]\<rparr>)
   \<and> (\<exists>q. objectives [Iteration 0 (Some 1482), Iteration 1 (Some 76), Iteration 2 (Some 76)] ! 1
             = Some q \<and> q \<le> 1482 * (1 - min_improvement))"
proof -
  note w = pq_train_objective_decreases_until_last[OF ex_decreasing_run, THEN conjunct2,
      rule_format, of 0 1482]
  have "\<exists>q. objectives [Iteration 0 (Some 1482), Iteration 1 (Some 76), Iteration 2 (Some 76)] ! 1
             = Some q \<and> q \<le> 1482 * (1 - min_improvement)"
    using w by simp
  with ex_decreasing_run show ?thesis by blast
qed

section \<open>The orchestrator: the returned flag\<close>

text \<open>
  Wherever \<^verbatim>\<open>pq_train\<close> returns a flag, the flag is failure exactly when
  \<open>nx < k * 39\<close> (lemma \<open>pq_train_log\<close>). The claim also promises that the call
  returns one for every input. It does not when there are fewer training
  vectors than centroids.
\<close>

lemma for_each_fails:
  assumes "\<forall>i\<in>set js. \<forall>s e. body i s = Inl e \<longrightarrow> e = OutOfBounds"
    and "\<exists>i\<in>set js. \<forall>s. body i s = Inl OutOfBounds"
  shows "for_each js body s = Inl OutOfBounds"
  using assms
proof (induction js arbitrary: s)
  case Nil
  then show ?case by simp
next
  case (Cons i js)
  show ?case
  proof (cases "body i s")
    case (Inl e)
    then have "e = OutOfBounds" using Cons.prems(1) by simp
    then show ?thesis using Inl by simp
  next
    case (Inr s')
    have "\<not> (\<forall>s. body i s = Inl OutOfBounds)"
    proof
      assume "\<forall>s. body i s = Inl OutOfBounds"
      then have "body i s = Inl OutOfBounds" by (rule spec)
      with Inr show False by simp
    qed
    then have "\<exists>i\<in>set js. \<forall>s. body i s = Inl OutOfBounds" using Cons.prems(2) by auto
    moreover have "\<forall>i\<in>set js. \<forall>s e. body i s = Inl e \<longrightarrow> e = OutOfBounds"
      using Cons.prems(1) by simp
    ultimately have "for_each js body s' = Inl OutOfBounds" by (rule Cons.IH[rotated])
    then show ?thesis using Inr by simp
  qed
qed

lemma init_random_few_rows:
  assumes "nx < k"
  shows "init_random E d k nx x centroids = Inl OutOfBounds"
proof -
  let ?perm = "rand_perm E nx (seed + 1)"
  let ?body = "\<lambda>i c. case perm_at ?perm nx i of
                         Inl e \<Rightarrow> Inl e
                       | Inr p \<Rightarrow> memcpy c (i * d) x (p * d) d"
  have only: "\<forall>i\<in>set [0..<k]. \<forall>s e. ?body i s = Inl e \<longrightarrow> e = OutOfBounds"
    by (auto simp: perm_at_def memcpy_def split: if_splits)
  have "\<forall>s. ?body nx s = Inl OutOfBounds" by (simp add: perm_at_def)
  then have "\<exists>i\<in>set [0..<k]. \<forall>s. ?body i s = Inl OutOfBounds" using assms by auto
  with only have "for_each [0..<k] ?body centroids = Inl OutOfBounds" by (rule for_each_fails)
  then show ?thesis by (simp add: init_random_def Let_def)
qed

text \<open>
  Claim C3, the failing inputs. The default initializer runs before the
  low-data guard and reads \<^verbatim>\<open>perm[i]\<close> for every \<open>i < k\<close> from a permutation vector of
  \<open>nx\<close> entries. With fewer training vectors than centroids (\<open>nx < k\<close>, hence
  \<open>nx < k * 39\<close>, where the claim demands the failure return) it reads
  \<^verbatim>\<open>perm[nx]\<close>, beyond the end of the vector, and copies a row of the slice from
  the index found there: the call does not return failure, it leaves the
  defined behaviour of the source (\<open>OutOfBounds\<close>), whatever the permutation, the
  buffers and the dimension are.
\<close>

theorem pq_train_reads_out_of_bounds:
  assumes "slice_len < 2 ^ pqBits meta"
  shows "pq_train E TT_DEFAULT meta slice_len slice centroids = Some (Inl OutOfBounds)"
  using init_random_few_rows[OF assms, of E "pqSubdim meta" slice centroids]
  by (simp add: pq_train_def init_centroids_def Let_def)

theorem pq_train_reads_out_of_bounds_witness:
  "(0::nat) < 2 ^ pqBits meta_1_1
   \<and> pq_train E_rev TT_DEFAULT meta_1_1 0 [] [0] = Some (Inl OutOfBounds)
   \<and> (1::nat) < 2 ^ pqBits meta_1_2
   \<and> pq_train E_rev TT_DEFAULT meta_1_2 1 [5] [0, 0] = Some (Inl OutOfBounds)"
proof -
  have a: "(0::nat) < 2 ^ pqBits meta_1_1" by (simp add: meta_1_1_def)
  have b: "(1::nat) < 2 ^ pqBits meta_1_2" by (simp add: meta_1_2_def)
  from a b pq_train_reads_out_of_bounds[OF a, of E_rev "[]" "[0]"]
    pq_train_reads_out_of_bounds[OF b, of E_rev "[5]" "[0, 0]"]
  show ?thesis by simp
qed

section \<open>The orchestrator: reproducibility\<close>




lemma agree_mono: "agree m c c' \<Longrightarrow> m' \<le> m \<Longrightarrow> agree m' c c'"
  by (auto simp: agree_def)






lemma rel_sum_agree_length:
  assumes "rel_sum (=) (\<lambda>c c'. length c = l \<and> length c' = l) a a'" "a = Inr c"
  shows "length c = l"
  using assms by (cases a') simp_all






end
